theory Spec2Isabelle
  imports Main
begin

section \<open>ImpactChain: the ProjectEscrow ledger and the ImpactToken certificate\<close>

text \<open>
  A shallow embedding of the two Solidity contracts listed in \<^verbatim>\<open>day2.md\<close>
  (\<^verbatim>\<open>ImpactToken\<close>, lines 35-73, and the complete \<^verbatim>\<open>ProjectEscrow\<close>, lines 206-358)
  together with the deployment of \<^verbatim>\<open>scripts/deploy.js\<close> (lines 498-536).

  A message call either returns normally with a new state (\<open>Inr\<close>) or reverts with an
  error (\<open>Inl\<close>); a revert discards every write of the call, so the caller goes on
  with the state it had before. An unsigned 256-bit integer is a \<open>nat\<close>, and the checked
  arithmetic of Solidity 0.8 is written out where the code adds: a sum above
  \<open>uint256_max\<close> panics. Ether balances are \<open>nat\<close> without a bound (the supply of
  ether is far below \<open>2 ^ 256\<close>).
\<close>

subsection \<open>Addresses, errors, events\<close>

text \<open>
  The address space: \<open>address(0)\<close>, the two deployed contracts, and every other account
  (an externally owned account or a foreign contract). Only an \<open>Account\<close> ever starts a
  call into the system; \<open>ProjectEscrow\<close> is \<open>msg.sender\<close> only of the one call the
  escrow itself makes to the token.
\<close>

datatype address = address0 | ProjectEscrow | ImpactToken | Account nat

datatype error =
    Revert string
  | Panic nat
  | OwnableUnauthorizedAccount address
  | OwnableInvalidOwner address
  | ReentrancyGuardReentrantCall
  | ERC721InvalidReceiver address
  | ERC721InvalidSender address
  | ERC721NonexistentToken nat
  | ERC721InsufficientApproval address nat
  | ERC721IncorrectOwner address nat address
  | ERC721InvalidApprover address
  | ERC721InvalidOperator address
  | OutOfGas

datatype event =
    ProjectCreated nat address nat
  | DonationReceived nat address nat
  | MilestoneVerified nat nat
  | FundsReleased nat nat nat
  | Transfer address address nat
  | Approval address address nat
  | ApprovalForAll address address bool

definition uint256_max :: nat where
  "uint256_max = 2 ^ 256 - 1"

subsection \<open>Storage\<close>

datatype MilestoneState = Pending | Verified | Paid

record Milestone =
  description :: string
  amount :: nat
  state :: MilestoneState

record Project =
  projectId :: nat
  creator :: address
  donor :: address
  totalAmount :: nat
  fundsRaised :: nat
  milestones :: "Milestone list"
  isComplete :: bool

text \<open>The value of a storage slot that was never written.\<close>

definition emptyProject :: Project where
  "emptyProject =
     \<lparr>projectId = 0, creator = address0, donor = address0, totalAmount = 0,
      fundsRaised = 0, milestones = [], isComplete = False\<rparr>"

text \<open>
  The storage of both contracts, the ether held by the escrow, and the log.
  \<open>escrowOwner\<close> and \<open>tokenOwner\<close> are the \<open>Ownable\<close> owners of the two contracts,
  \<open>entered\<close> is the status of the escrow's \<open>ReentrancyGuard\<close>, \<open>owners\<close>,
  \<open>tokenApprovals\<close>, \<open>operatorApprovals\<close> and \<open>tokenURIs\<close> are the ERC-721 tables of
  the token (the owner \<open>address0\<close>: not minted; the token's count of certificates for
  each holder is not kept, nothing reads it), and \<open>received\<close> counts the wei the escrow
  has paid out to each address.
\<close>

record world =
  projects :: "nat \<Rightarrow> Project"
  projectCounter :: nat
  escrowOwner :: address
  entered :: bool
  escrowBalance :: nat
  received :: "address \<Rightarrow> nat"
  tokenOwner :: address
  owners :: "nat \<Rightarrow> address"
  tokenApprovals :: "nat \<Rightarrow> address"
  operatorApprovals :: "address \<Rightarrow> address \<Rightarrow> bool"
  tokenURIs :: "nat \<Rightarrow> string"
  events :: "event list"

definition emit :: "event \<Rightarrow> world \<Rightarrow> world" where
  "emit e w = w\<lparr>events := events w @ [e]\<rparr>"

definition setMilestoneState :: "nat \<Rightarrow> nat \<Rightarrow> MilestoneState \<Rightarrow> world \<Rightarrow> world" where
  "setMilestoneState pid idx st w =
     (let p = projects w pid;
          m = milestones p ! idx
      in w\<lparr>projects := (projects w)(pid := p\<lparr>milestones := (milestones p)[idx := m\<lparr>state := st\<rparr>]\<rparr>)\<rparr>)"

subsection \<open>Calls that leave the system\<close>

text \<open>
  The escrow calls out twice: the low-level \<open>creator.call{value: amount}("")\<close> of
  \<open>_releaseFunds\<close>, and, through \<open>_safeMint\<close>, the acceptance check on the recipient of
  a certificate. The code that runs there is not the system's: it is a parameter, two
  functions from the callee's address and the state it is entered in to the state it
  leaves behind, \<open>None\<close> when the callee reverts.
\<close>

record ext =
  pay :: "address \<Rightarrow> world \<Rightarrow> world option"
  ack :: "address \<Rightarrow> world \<Rightarrow> world option"

text \<open>
  \<open>to.call{value: v}("")\<close>: fails when the escrow holds less than \<open>v\<close>; otherwise the
  value moves and the callee runs. A failure undoes the move.
\<close>

definition call_value :: "ext \<Rightarrow> address \<Rightarrow> nat \<Rightarrow> world \<Rightarrow> world option" where
  "call_value X to v w =
     (if escrowBalance w < v then None
      else pay X to (w\<lparr>escrowBalance := escrowBalance w - v,
                       received := (received w)(to := received w to + v)\<rparr>))"

subsection \<open>Modifiers\<close>

text \<open>
  Modelled from the spec: the modifier \<open>onlyOwner\<close> of OpenZeppelin's \<open>Ownable\<close>, which
  the listing imports and does not show. The caller must be the current owner of the
  contract (day2.md, line 85: if not, the transaction reverts).
\<close>

definition onlyOwner ::
  "(world \<Rightarrow> address) \<Rightarrow> address \<Rightarrow> (world \<Rightarrow> error + world) \<Rightarrow> world \<Rightarrow> error + world" where
  "onlyOwner owner sender body w =
     (if sender \<noteq> owner w then Inl (OwnableUnauthorizedAccount sender) else body w)"

text \<open>
  Modelled from the spec: the modifier \<open>nonReentrant\<close> of OpenZeppelin's
  \<open>ReentrancyGuard\<close>, which the listing imports and does not show. After the spec's
  per-call lock: a call while the component is busy is rejected; otherwise the component
  marks itself busy, runs the body, and clears the mark when the body has returned (a
  revert of the body undoes the mark with everything else).
\<close>

definition nonReentrant :: "(world \<Rightarrow> error + world) \<Rightarrow> world \<Rightarrow> error + world" where
  "nonReentrant body w =
     (if entered w then Inl ReentrancyGuardReentrantCall
      else case body (w\<lparr>entered := True\<rparr>) of
             Inl e \<Rightarrow> Inl e
           | Inr w' \<Rightarrow> Inr (w'\<lparr>entered := False\<rparr>))"

subsection \<open>ImpactToken\<close>

text \<open>
  Modelled from the spec: the library parts the body of \<open>safeMint\<close> is built from,
  which the listing imports and does not show (OpenZeppelin's \<open>_safeMint\<close> and
  \<open>_setTokenURI\<close>). After the spec's mint operation and the listing's own description
  (day2.md, lines 86-88): the certificate id must not be minted yet and the recipient
  must not be null; the certificate is assigned to the recipient, who must then accept
  it; last the metadata pointer is stored.
\<close>

definition safeMint :: "ext \<Rightarrow> address \<Rightarrow> address \<Rightarrow> nat \<Rightarrow> string \<Rightarrow> world \<Rightarrow> error + world" where
  "safeMint X sender to tokenId tokenURI =
     onlyOwner tokenOwner sender (\<lambda>w.
       if to = address0 then Inl (ERC721InvalidReceiver address0)
       else if owners w tokenId \<noteq> address0 then Inl (ERC721InvalidSender address0)
       else
         let w1 = emit (Transfer address0 to tokenId) (w\<lparr>owners := (owners w)(tokenId := to)\<rparr>)
         in case ack X to w1 of
              None \<Rightarrow> Inl (ERC721InvalidReceiver to)
            | Some w2 \<Rightarrow> Inr (w2\<lparr>tokenURIs := (tokenURIs w2)(tokenId := tokenURI)\<rparr>))"

text \<open>
  Modelled from the spec: the holder operations \<open>ImpactToken\<close> inherits from
  OpenZeppelin's \<open>ERC721\<close> (day2.md, lines 38 and 47), which the listing does not show
  and the spec has no operation for; they follow the ERC-721 standard the listing names
  (line 78: the functionality for tracking token ownership and transfers). A holder, an
  operator the holder has approved for all its certificates, or the account approved for
  one certificate may pass it on to any receiver but \<open>address(0)\<close>; the transfer clears
  the approval of the certificate and is logged. The safe transfer asks the receiver to
  accept, as the mint does. No operation destroys a certificate. The caller,
  \<open>msg.sender\<close>, is an account or a contract, never \<open>address(0)\<close>.
\<close>

definition isAuthorized :: "world \<Rightarrow> address \<Rightarrow> address \<Rightarrow> nat \<Rightarrow> bool" where
  "isAuthorized w owner spender tokenId \<longleftrightarrow>
     spender \<noteq> address0 \<and>
     (owner = spender \<or> operatorApprovals w owner spender \<or> tokenApprovals w tokenId = spender)"

definition transferFrom :: "address \<Rightarrow> address \<Rightarrow> address \<Rightarrow> nat \<Rightarrow> world \<Rightarrow> error + world" where
  "transferFrom sender from to tokenId w =
     (if to = address0 then Inl (ERC721InvalidReceiver address0)
      else
        let owner = owners w tokenId
        in if \<not> isAuthorized w owner sender tokenId then
             (if owner = address0 then Inl (ERC721NonexistentToken tokenId)
              else Inl (ERC721InsufficientApproval sender tokenId))
           else if owner \<noteq> from then Inl (ERC721IncorrectOwner from tokenId owner)
           else Inr (emit (Transfer owner to tokenId)
                  (w\<lparr>tokenApprovals :=
                       (if owner \<noteq> address0 then (tokenApprovals w)(tokenId := address0)
                        else tokenApprovals w),
                     owners := (owners w)(tokenId := to)\<rparr>)))"

definition safeTransferFrom ::
  "ext \<Rightarrow> address \<Rightarrow> address \<Rightarrow> address \<Rightarrow> nat \<Rightarrow> world \<Rightarrow> error + world" where
  "safeTransferFrom X sender from to tokenId w =
     (case transferFrom sender from to tokenId w of
        Inl e \<Rightarrow> Inl e
      | Inr w1 \<Rightarrow>
          (case ack X to w1 of
             None \<Rightarrow> Inl (ERC721InvalidReceiver to)
           | Some w2 \<Rightarrow> Inr w2))"

definition approve :: "address \<Rightarrow> address \<Rightarrow> nat \<Rightarrow> world \<Rightarrow> error + world" where
  "approve sender to tokenId w =
     (let owner = owners w tokenId
      in if owner = address0 then Inl (ERC721NonexistentToken tokenId)
         else if sender \<noteq> address0 \<and> owner \<noteq> sender \<and> \<not> operatorApprovals w owner sender
           then Inl (ERC721InvalidApprover sender)
         else Inr (emit (Approval owner to tokenId)
                (w\<lparr>tokenApprovals := (tokenApprovals w)(tokenId := to)\<rparr>)))"

definition setApprovalForAll :: "address \<Rightarrow> address \<Rightarrow> bool \<Rightarrow> world \<Rightarrow> error + world" where
  "setApprovalForAll sender operator approved w =
     (if operator = address0 then Inl (ERC721InvalidOperator address0)
      else Inr (emit (ApprovalForAll sender operator approved)
             (w\<lparr>operatorApprovals :=
                  (operatorApprovals w)(sender := (operatorApprovals w sender)(operator := approved))\<rparr>)))"

text \<open>
  Modelled from the spec: \<open>transferOwnership\<close> and \<open>renounceOwnership\<close>, inherited from
  OpenZeppelin's \<open>Ownable\<close> by both contracts and not shown in the listing. The
  deployment script calls the first on the token (the spec's transferMintAuthority).
\<close>

definition tokenTransferOwnership :: "address \<Rightarrow> address \<Rightarrow> world \<Rightarrow> error + world" where
  "tokenTransferOwnership sender newOwner =
     onlyOwner tokenOwner sender (\<lambda>w.
       if newOwner = address0 then Inl (OwnableInvalidOwner address0)
       else Inr (w\<lparr>tokenOwner := newOwner\<rparr>))"

definition tokenRenounceOwnership :: "address \<Rightarrow> world \<Rightarrow> error + world" where
  "tokenRenounceOwnership sender =
     onlyOwner tokenOwner sender (\<lambda>w. Inr (w\<lparr>tokenOwner := address0\<rparr>))"

definition escrowTransferOwnership :: "address \<Rightarrow> address \<Rightarrow> world \<Rightarrow> error + world" where
  "escrowTransferOwnership sender newOwner =
     onlyOwner escrowOwner sender (\<lambda>w.
       if newOwner = address0 then Inl (OwnableInvalidOwner address0)
       else Inr (w\<lparr>escrowOwner := newOwner\<rparr>))"

definition escrowRenounceOwnership :: "address \<Rightarrow> world \<Rightarrow> error + world" where
  "escrowRenounceOwnership sender =
     onlyOwner escrowOwner sender (\<lambda>w. Inr (w\<lparr>escrowOwner := address0\<rparr>))"

subsection \<open>ProjectEscrow\<close>

text \<open>
  The loop of \<open>createProject\<close> (day2.md, lines 279-288), from index \<open>i\<close> on: \<open>ms\<close> is
  the storage array \<open>newProject.milestones\<close> and \<open>tot\<close> is \<open>totalProjectAmount\<close>.
  Reading \<open>_milestoneDescriptions[i]\<close> out of range and an overflowing \<open>+=\<close> panic.
\<close>

function pushMilestones ::
  "nat list \<Rightarrow> string list \<Rightarrow> nat \<Rightarrow> Milestone list \<Rightarrow> nat \<Rightarrow> error + (Milestone list \<times> nat)" where
  "pushMilestones amts descs i ms tot =
     (if i < length amts then
        if \<not> 0 < amts ! i then Inl (Revert ''Milestone amount must be positive'')
        else if \<not> i < length descs then Inl (Panic 50)
        else if uint256_max < tot + amts ! i then Inl (Panic 17)
        else pushMilestones amts descs (Suc i)
               (ms @ [\<lparr>description = descs ! i, amount = amts ! i, state = Pending\<rparr>])
               (tot + amts ! i)
      else Inr (ms, tot))"
  by pat_completeness auto
termination
  by (relation "measure (\<lambda>(amts, descs, i, ms, tot). length amts - i)") auto

declare pushMilestones.simps [simp del]

definition createProject ::
  "address \<Rightarrow> address \<Rightarrow> nat list \<Rightarrow> string list \<Rightarrow> world \<Rightarrow> error + world" where
  "createProject sender ngo amts descs w =
     (if ngo = address0 then Inl (Revert ''Invalid NGO address'')
      else if length amts \<noteq> length descs then Inl (Revert ''Input array length mismatch'')
      else if \<not> 0 < length amts then Inl (Revert ''Project must have at least one milestone'')
      else
        let pid = projectCounter w;
            newProject = (projects w pid)\<lparr>projectId := pid, creator := ngo\<rparr>
        in case pushMilestones amts descs 0 (milestones newProject) 0 of
             Inl e \<Rightarrow> Inl e
           | Inr (ms, tot) \<Rightarrow>
               if uint256_max < projectCounter w + 1 then Inl (Panic 17)
               else Inr (emit (ProjectCreated pid ngo tot)
                      (w\<lparr>projects := (projects w)
                            (pid := newProject\<lparr>milestones := ms, totalAmount := tot\<rparr>),
                         projectCounter := projectCounter w + 1\<rparr>)))"

text \<open>
  \<open>donate\<close> (day2.md, lines 298-308) is \<open>payable\<close>: the attached value is credited to
  the escrow with the call, before the modifier and the body run.
\<close>

definition donate :: "address \<Rightarrow> nat \<Rightarrow> nat \<Rightarrow> world \<Rightarrow> error + world" where
  "donate sender msg_value pid w =
     nonReentrant (\<lambda>w1.
       let project = projects w1 pid
       in if creator project = address0 then Inl (Revert ''Project does not exist'')
          else if donor project \<noteq> address0 then Inl (Revert ''Project already funded'')
          else if msg_value \<noteq> totalAmount project
            then Inl (Revert ''Donation must match total project amount'')
          else
            let w2 = w1\<lparr>projects := (projects w1)
                         (pid := project\<lparr>fundsRaised := msg_value, donor := sender\<rparr>)\<rparr>
            in Inr (emit (DonationReceived pid sender msg_value) w2))
       (w\<lparr>escrowBalance := escrowBalance w + msg_value\<rparr>)"

definition constructTokenURI :: "nat \<Rightarrow> string" where
  "constructTokenURI pid = ''https://api.jsonbin.io/v3/b/6... (replace with your hosted JSON)''"

text \<open>
  \<open>_releaseFunds\<close> (day2.md, lines 334-349). \<open>project\<close> and \<open>milestone\<close> are storage
  references: what is read after the transfer is read from the storage the callee left.
\<close>

definition releaseFunds :: "ext \<Rightarrow> nat \<Rightarrow> nat \<Rightarrow> world \<Rightarrow> error + world" where
  "releaseFunds X pid idx w =
     (if \<not> idx < length (milestones (projects w pid)) then Inl (Panic 50)
      else
        case call_value X (creator (projects w pid))
               (amount (milestones (projects w pid) ! idx)) w of
          None \<Rightarrow> Inl (Revert ''Fund transfer failed.'')
        | Some w1 \<Rightarrow>
            if \<not> idx < length (milestones (projects w1 pid)) then Inl (Panic 50)
            else
              let w2 = setMilestoneState pid idx Paid w1;
                  w3 = emit (FundsReleased pid idx (amount (milestones (projects w2 pid) ! idx))) w2
              in if length (milestones (projects w3 pid)) = 0 then Inl (Panic 17)
                 else if idx = length (milestones (projects w3 pid)) - 1 then
                   let w4 = w3\<lparr>projects := (projects w3)
                                 (pid := (projects w3 pid)\<lparr>isComplete := True\<rparr>)\<rparr>
                   in safeMint X ProjectEscrow (donor (projects w4 pid)) pid
                        (constructTokenURI pid) w4
                 else Inr w3)"

text \<open>
  \<open>verifyMilestone\<close> (day2.md, lines 313-329), with its modifiers in their order:
  \<open>onlyOwner\<close>, then \<open>nonReentrant\<close>.
\<close>

definition verifyMilestone :: "ext \<Rightarrow> address \<Rightarrow> nat \<Rightarrow> nat \<Rightarrow> world \<Rightarrow> error + world" where
  "verifyMilestone X sender pid idx =
     onlyOwner escrowOwner sender (nonReentrant (\<lambda>w1.
       let project = projects w1 pid
       in if creator project = address0 then Inl (Revert ''Project does not exist'')
          else if \<not> idx < length (milestones project) then Inl (Revert ''Invalid milestone index'')
          else if state (milestones project ! idx) \<noteq> Pending
            then Inl (Revert ''Milestone not pending verification'')
          else
            let w2 = setMilestoneState pid idx Verified w1;
                w3 = emit (MilestoneVerified pid idx) w2
            in releaseFunds X pid idx w3))"

subsection \<open>Message calls, callees and transactions\<close>

text \<open>The entry points an account can call, with their arguments.\<close>

datatype action =
    CreateProject address "nat list" "string list"
  | Donate nat nat
  | VerifyMilestone nat nat
  | SafeMint address nat string
  | TransferFrom address address nat
  | SafeTransferFrom address address nat
  | Approve address nat
  | SetApprovalForAll address bool
  | TokenTransferOwnership address
  | TokenRenounceOwnership
  | EscrowTransferOwnership address
  | EscrowRenounceOwnership

text \<open>\<open>Call n a\<close>: account \<open>n\<close> calls \<open>a\<close>; \<open>Donate pid v\<close> carries the value \<open>v\<close>.\<close>

datatype call = Call nat action

text \<open>
  What the code of an account does when it is called: it makes calls of its own into the
  system, going on when one of them reverts, and then returns normally or reverts. An
  externally owned account makes no call and returns.
\<close>

record hook =
  nested :: "call list"
  returns :: bool

record env =
  onReceive :: "nat \<Rightarrow> hook"
  onERC721Received :: "nat \<Rightarrow> hook"

definition attempt :: "(call \<Rightarrow> world \<Rightarrow> error + world) \<Rightarrow> call \<Rightarrow> world \<Rightarrow> world" where
  "attempt ex c w = (case ex c w of Inl e \<Rightarrow> w | Inr w' \<Rightarrow> w')"

definition run_hook :: "(call \<Rightarrow> world \<Rightarrow> error + world) \<Rightarrow> hook \<Rightarrow> world \<Rightarrow> world option" where
  "run_hook ex h w = (if returns h then Some (fold (attempt ex) (nested h) w) else None)"

text \<open>
  The callee at an address. Neither contract of the system has a \<open>receive\<close> or a
  fallback function, nor implements the receiver interface: a call to them reverts.
  \<open>address(0)\<close> has no code.
\<close>

definition callee ::
  "(call \<Rightarrow> world \<Rightarrow> error + world) \<Rightarrow> (nat \<Rightarrow> hook) \<Rightarrow> address \<Rightarrow> world \<Rightarrow> world option" where
  "callee ex hooks a w =
     (case a of
        Account n \<Rightarrow> run_hook ex (hooks n) w
      | address0 \<Rightarrow> Some w
      | ProjectEscrow \<Rightarrow> None
      | ImpactToken \<Rightarrow> None)"

definition outside :: "env \<Rightarrow> (call \<Rightarrow> world \<Rightarrow> error + world) \<Rightarrow> ext" where
  "outside E ex = \<lparr>pay = callee ex (onReceive E), ack = callee ex (onERC721Received E)\<rparr>"

fun dispatch :: "ext \<Rightarrow> call \<Rightarrow> world \<Rightarrow> error + world" where
  "dispatch X (Call n (CreateProject ngo amts descs)) w = createProject (Account n) ngo amts descs w"
| "dispatch X (Call n (Donate pid v)) w = donate (Account n) v pid w"
| "dispatch X (Call n (VerifyMilestone pid idx)) w = verifyMilestone X (Account n) pid idx w"
| "dispatch X (Call n (SafeMint to tokenId uri)) w = safeMint X (Account n) to tokenId uri w"
| "dispatch X (Call n (TransferFrom from to tokenId)) w = transferFrom (Account n) from to tokenId w"
| "dispatch X (Call n (SafeTransferFrom from to tokenId)) w =
     safeTransferFrom X (Account n) from to tokenId w"
| "dispatch X (Call n (Approve to tokenId)) w = approve (Account n) to tokenId w"
| "dispatch X (Call n (SetApprovalForAll operator approved)) w =
     setApprovalForAll (Account n) operator approved w"
| "dispatch X (Call n (TokenTransferOwnership a)) w = tokenTransferOwnership (Account n) a w"
| "dispatch X (Call n TokenRenounceOwnership) w = tokenRenounceOwnership (Account n) w"
| "dispatch X (Call n (EscrowTransferOwnership a)) w = escrowTransferOwnership (Account n) a w"
| "dispatch X (Call n EscrowRenounceOwnership) w = escrowRenounceOwnership (Account n) w"

text \<open>
  A message call with a budget of nested calls (gas, call depth): with none left the
  call fails; otherwise the entry point runs, and the callees it reaches make their own
  calls with what is left.
\<close>

primrec exec :: "env \<Rightarrow> nat \<Rightarrow> call \<Rightarrow> world \<Rightarrow> error + world" where
  "exec E 0 c w = Inl OutOfGas"
| "exec E (Suc d) c w = dispatch (outside E (exec E d)) c w"

text \<open>A transaction: the state after a reverted call is the state before it.\<close>

definition transact :: "env \<Rightarrow> nat \<Rightarrow> call \<Rightarrow> world \<Rightarrow> error option \<times> world" where
  "transact E d c w = (case exec E d c w of Inl e \<Rightarrow> (Some e, w) | Inr w' \<Rightarrow> (None, w'))"

text \<open>
  The state after both constructors have run, with \<open>deployer\<close> the deploying account
  (steps 1 and 2 of the deployment script). Step 3, the transfer of the token's
  ownership to the escrow, is an ordinary transaction of the deployer.
\<close>

definition deployed :: "nat \<Rightarrow> world" where
  "deployed deployer =
     \<lparr>projects = (\<lambda>pid. emptyProject), projectCounter = 0,
      escrowOwner = Account deployer, entered = False, escrowBalance = 0,
      received = (\<lambda>a. 0), tokenOwner = Account deployer, owners = (\<lambda>t. address0),
      tokenApprovals = (\<lambda>t. address0), operatorApprovals = (\<lambda>a b. False),
      tokenURIs = (\<lambda>t. []), events = []\<rparr>"

inductive steps :: "world \<Rightarrow> world \<Rightarrow> bool" where
  steps_refl: "steps w w"
| steps_call: "steps w w' \<Longrightarrow> exec E d c w' = Inr w'' \<Longrightarrow> steps w w''"

definition reachable :: "world \<Rightarrow> bool" where
  "reachable w = (\<exists>deployer. steps (deployed deployer) w)"


subsection \<open>Vocabulary of the properties\<close>

text \<open>
  A callee that does not take a payment: an account whose code reverts, or one of the two
  contracts of the system.
\<close>

definition refuses :: "(nat \<Rightarrow> hook) \<Rightarrow> address \<Rightarrow> bool" where
  "refuses hooks a =
     (case a of
        Account n \<Rightarrow> \<not> returns (hooks n)
      | address0 \<Rightarrow> False
      | ProjectEscrow \<Rightarrow> True
      | ImpactToken \<Rightarrow> True)"

text \<open>
  A mint is logged as a \<open>Transfer\<close> from \<open>address(0)\<close>; \<open>mints es t\<close> counts the mints of
  certificate \<open>t\<close> in the log \<open>es\<close>.
\<close>

fun isMint :: "nat \<Rightarrow> event \<Rightarrow> bool" where
  "isMint t (Transfer from to t') = (from = address0 \<and> t' = t)"
| "isMint t e = False"

definition mints :: "event list \<Rightarrow> nat \<Rightarrow> nat" where
  "mints es t = length (filter (isMint t) es)"

text \<open>
  The invariant of the storage: a project slot at or above the counter was never written,
  a certificate has been minted once if it has an owner and never otherwise, and nothing
  is approved for a certificate that has no owner or on behalf of \<open>address(0)\<close>.
\<close>

definition wf :: "world \<Rightarrow> bool" where
  "wf w \<longleftrightarrow>
     (\<forall>pid. projectCounter w \<le> pid \<longrightarrow> projects w pid = emptyProject) \<and>
     (\<forall>t. mints (events w) t = (if owners w t = address0 then 0 else 1)) \<and>
     (\<forall>t. owners w t = address0 \<longrightarrow> tokenApprovals w t = address0) \<and>
     (\<forall>a. \<not> operatorApprovals w address0 a)"

text \<open>The order of the milestone states.\<close>

fun rank :: "MilestoneState \<Rightarrow> nat" where
  "rank Pending = 0"
| "rank Verified = 1"
| "rank Paid = 2"

text \<open>
  How a project may differ between an earlier and a later state: creator, total and the
  milestones' number and amounts are fixed, no milestone state moves back, completion is
  kept, and a recorded donor stays with the funds raised.
\<close>

definition project_advances :: "Project \<Rightarrow> Project \<Rightarrow> bool" where
  "project_advances p p' \<longleftrightarrow>
     creator p' = creator p \<and> totalAmount p' = totalAmount p \<and>
     length (milestones p') = length (milestones p) \<and>
     (\<forall>i. i < length (milestones p) \<longrightarrow>
        amount (milestones p' ! i) = amount (milestones p ! i) \<and>
        rank (state (milestones p ! i)) \<le> rank (state (milestones p' ! i))) \<and>
     (isComplete p \<longrightarrow> isComplete p') \<and>
     (donor p \<noteq> address0 \<longrightarrow> donor p' = donor p \<and> fundsRaised p' = fundsRaised p)"

text \<open>
  What may not change while the reentrancy guard is taken: the existing projects, the
  escrow's ether and, once the escrow owns the token, which certificates exist.
\<close>

definition locked_frame :: "world \<Rightarrow> world \<Rightarrow> bool" where
  "locked_frame w w' \<longleftrightarrow>
     (\<forall>pid. pid < projectCounter w \<longrightarrow> projects w' pid = projects w pid) \<and>
     escrowBalance w' = escrowBalance w \<and> received w' = received w \<and>
     (tokenOwner w = ProjectEscrow \<longrightarrow>
        (\<forall>t. owners w t = address0 \<longrightarrow> owners w' t = address0) \<and> tokenURIs w' = tokenURIs w)"

text \<open>
  Once the escrow owns the token, a certificate that has come to exist between an earlier
  and a later state is the one of a project that is complete: the release of its last
  milestone and the mint to its donor are in the log.
\<close>

definition issued_on_completion :: "world \<Rightarrow> world \<Rightarrow> bool" where
  "issued_on_completion w w' \<longleftrightarrow>
     (\<forall>t. owners w t = address0 \<longrightarrow> owners w' t \<noteq> address0 \<longrightarrow>
        t < projectCounter w' \<and> isComplete (projects w' t) \<and>
        milestones (projects w' t) \<noteq> [] \<and> donor (projects w' t) \<noteq> address0 \<and>
        FundsReleased t (length (milestones (projects w' t)) - 1)
          (amount (milestones (projects w' t) ! (length (milestones (projects w' t)) - 1)))
          \<in> set (events w') \<and>
        Transfer address0 (donor (projects w' t)) t \<in> set (events w'))"

text \<open>\<open>advances w w'\<close>: \<open>w'\<close> is a possible later state of \<open>w\<close>.\<close>

definition advances :: "world \<Rightarrow> world \<Rightarrow> bool" where
  "advances w w' \<longleftrightarrow>
     entered w' = entered w \<and>
     projectCounter w \<le> projectCounter w' \<and>
     (\<forall>pid. pid < projectCounter w \<longrightarrow> project_advances (projects w pid) (projects w' pid)) \<and>
     (\<forall>t. owners w t \<noteq> address0 \<longrightarrow> owners w' t \<noteq> address0) \<and>
     (tokenOwner w = ProjectEscrow \<longrightarrow> tokenOwner w' = ProjectEscrow \<and> issued_on_completion w w') \<and>
     set (events w) \<subseteq> set (events w') \<and>
     (entered w \<longrightarrow> locked_frame w w')"

text \<open>
  A way of running calls keeps the invariant when each call that returns does; a pair of
  callees is civil when the states they leave behind are later states in this sense.
\<close>

definition keeps :: "(call \<Rightarrow> world \<Rightarrow> error + world) \<Rightarrow> bool" where
  "keeps ex \<longleftrightarrow> (\<forall>c w w'. wf w \<longrightarrow> ex c w = Inr w' \<longrightarrow> wf w' \<and> advances w w')"

definition civil :: "ext \<Rightarrow> bool" where
  "civil X \<longleftrightarrow>
     (\<forall>a w w'. wf w \<longrightarrow> pay X a w = Some w' \<longrightarrow> wf w' \<and> advances w w') \<and>
     (\<forall>a w w'. wf w \<longrightarrow> ack X a w = Some w' \<longrightarrow> wf w' \<and> advances w w')"

text \<open>
  The states a call of \<open>verifyMilestone\<close> passes through: \<open>verifying\<close> is the state the
  creator is paid in, \<open>settled\<close> marks the milestone paid and logs the release,
  \<open>completed\<close> marks the project complete, and \<open>mint\<close> assigns a certificate.
\<close>

definition verifying :: "nat \<Rightarrow> nat \<Rightarrow> world \<Rightarrow> world" where
  "verifying pid idx w =
     (let p = projects w pid; a = amount (milestones p ! idx)
      in (emit (MilestoneVerified pid idx) (setMilestoneState pid idx Verified (w\<lparr>entered := True\<rparr>)))
           \<lparr>escrowBalance := escrowBalance w - a,
            received := (received w)(creator p := received w (creator p) + a)\<rparr>)"

definition settled :: "nat \<Rightarrow> nat \<Rightarrow> world \<Rightarrow> world" where
  "settled pid idx w =
     emit (FundsReleased pid idx (amount (milestones (projects w pid) ! idx)))
       (setMilestoneState pid idx Paid w)"

definition completed :: "nat \<Rightarrow> world \<Rightarrow> world" where
  "completed pid w = w\<lparr>projects := (projects w)(pid := (projects w pid)\<lparr>isComplete := True\<rparr>)\<rparr>"

definition mint :: "address \<Rightarrow> nat \<Rightarrow> world \<Rightarrow> world" where
  "mint to t w = emit (Transfer address0 to t) (w\<lparr>owners := (owners w)(t := to)\<rparr>)"

text \<open>The milestones of a new project: one for each amount and description, all Pending.\<close>

definition pendingMilestones :: "nat list \<Rightarrow> string list \<Rightarrow> Milestone list" where
  "pendingMilestones amts descs =
     map (\<lambda>(d, a). \<lparr>description = d, amount = a, state = Pending\<rparr>) (zip descs amts)"

text \<open>
  The entry points that carry \<open>nonReentrant\<close>, and a callee without its calls to them.
\<close>

fun guarded :: "call \<Rightarrow> bool" where
  "guarded (Call n (Donate pid v)) = True"
| "guarded (Call n (VerifyMilestone pid idx)) = True"
| "guarded (Call n a) = False"

definition unguarded_hook :: "hook \<Rightarrow> hook" where
  "unguarded_hook h = h\<lparr>nested := filter (\<lambda>c. \<not> guarded c) (nested h)\<rparr>"

definition without_reentry :: "env \<Rightarrow> env" where
  "without_reentry E =
     \<lparr>onReceive = (\<lambda>n. unguarded_hook (onReceive E n)),
      onERC721Received = (\<lambda>n. unguarded_hook (onERC721Received E n))\<rparr>"



text \<open>Two pairs of callees that do the same whenever the guard is taken.\<close>

definition agree_locked :: "ext \<Rightarrow> ext \<Rightarrow> bool" where
  "agree_locked X X' \<longleftrightarrow>
     (\<forall>a v. wf v \<longrightarrow> entered v \<longrightarrow> pay X a v = pay X' a v \<and> ack X a v = ack X' a v)"

subsection \<open>Example states\<close>

text \<open>Every account is externally owned: it makes no call of its own and takes what it is sent.\<close>

definition plain :: env where
  "plain =
     \<lparr>onReceive = (\<lambda>n. \<lparr>nested = [], returns = True\<rparr>),
      onERC721Received = (\<lambda>n. \<lparr>nested = [], returns = True\<rparr>)\<rparr>"

text \<open>Account 2 is a contract that reverts when it is paid.\<close>

definition refusing :: env where
  "refusing =
     \<lparr>onReceive = (\<lambda>n. \<lparr>nested = [], returns = (n \<noteq> 2)\<rparr>),
      onERC721Received = (\<lambda>n. \<lparr>nested = [], returns = True\<rparr>)\<rparr>"

text \<open>
  Account 2 is a contract that, when it is paid, calls \<open>verifyMilestone\<close> and \<open>donate\<close>
  before it returns.
\<close>

definition reentering :: env where
  "reentering =
     \<lparr>onReceive = (\<lambda>n. \<lparr>nested = (if n = 2 then [Call 2 (VerifyMilestone 0 1), Call 2 (Donate 0 5)] else []),
                           returns = True\<rparr>),
      onERC721Received = (\<lambda>n. \<lparr>nested = [], returns = True\<rparr>)\<rparr>"


text \<open>
  The scenario of the specification: account 0 has deployed both contracts and handed the
  token to the escrow, and a project with the milestones 3 and 2 was created for account 2.
\<close>

definition created :: world where
  "created =
     \<lparr>projects = (\<lambda>pid. emptyProject)
        (0 := \<lparr>projectId = 0, creator = Account 2, donor = address0, totalAmount = 5,
               fundsRaised = 0,
               milestones = [\<lparr>description = ''a'', amount = 3, state = Pending\<rparr>,
                             \<lparr>description = ''b'', amount = 2, state = Pending\<rparr>],
               isComplete = False\<rparr>),
      projectCounter = 1, escrowOwner = Account 0, entered = False, escrowBalance = 0,
      received = (\<lambda>a. 0), tokenOwner = ProjectEscrow, owners = (\<lambda>t. address0),
      tokenApprovals = (\<lambda>t. address0), operatorApprovals = (\<lambda>a b. False),
      tokenURIs = (\<lambda>t. []),
      events = [ProjectCreated 0 (Account 2) 5]\<rparr>"

text \<open>Then account 3 has donated 5.\<close>

definition funded :: world where
  "funded =
     \<lparr>projects = (\<lambda>pid. emptyProject)
        (0 := \<lparr>projectId = 0, creator = Account 2, donor = Account 3, totalAmount = 5,
               fundsRaised = 5,
               milestones = [\<lparr>description = ''a'', amount = 3, state = Pending\<rparr>,
                             \<lparr>description = ''b'', amount = 2, state = Pending\<rparr>],
               isComplete = False\<rparr>),
      projectCounter = 1, escrowOwner = Account 0, entered = False, escrowBalance = 5,
      received = (\<lambda>a. 0), tokenOwner = ProjectEscrow, owners = (\<lambda>t. address0),
      tokenApprovals = (\<lambda>t. address0), operatorApprovals = (\<lambda>a b. False),
      tokenURIs = (\<lambda>t. []),
      events = [ProjectCreated 0 (Account 2) 5, DonationReceived 0 (Account 3) 5]\<rparr>"

text \<open>
  Then a second project was created for account 4, with the milestones 3 and 1, and was
  not funded.
\<close>

definition second :: world where
  "second =
     funded\<lparr>projects := (projects funded)
        (1 := \<lparr>projectId = 1, creator = Account 4, donor = address0, totalAmount = 4,
               fundsRaised = 0,
               milestones = [\<lparr>description = ''c'', amount = 3, state = Pending\<rparr>,
                             \<lparr>description = ''d'', amount = 1, state = Pending\<rparr>],
               isComplete = False\<rparr>),
      projectCounter := 2,
      events := events funded @ [ProjectCreated 1 (Account 4) 4]\<rparr>"

section \<open>Properties\<close>

subsection \<open>Reading the state\<close>

lemma emit_fields [simp]:
  "projects (emit e w) = projects w"
  "projectCounter (emit e w) = projectCounter w"
  "escrowOwner (emit e w) = escrowOwner w"
  "entered (emit e w) = entered w"
  "escrowBalance (emit e w) = escrowBalance w"
  "received (emit e w) = received w"
  "tokenOwner (emit e w) = tokenOwner w"
  "owners (emit e w) = owners w"
  "tokenURIs (emit e w) = tokenURIs w"
  "events (emit e w) = events w @ [e]"
  "tokenApprovals (emit e w) = tokenApprovals w"
  "operatorApprovals (emit e w) = operatorApprovals w"
  by (simp_all add: emit_def)

lemma setMilestoneState_projects [simp]:
  "projects (setMilestoneState pid idx st w) =
     (projects w)(pid := (projects w pid)
        \<lparr>milestones := (milestones (projects w pid))
           [idx := (milestones (projects w pid) ! idx)\<lparr>state := st\<rparr>]\<rparr>)"
  by (simp add: setMilestoneState_def Let_def)

lemma setMilestoneState_fields [simp]:
  "projectCounter (setMilestoneState pid idx st w) = projectCounter w"
  "escrowOwner (setMilestoneState pid idx st w) = escrowOwner w"
  "entered (setMilestoneState pid idx st w) = entered w"
  "escrowBalance (setMilestoneState pid idx st w) = escrowBalance w"
  "received (setMilestoneState pid idx st w) = received w"
  "tokenOwner (setMilestoneState pid idx st w) = tokenOwner w"
  "owners (setMilestoneState pid idx st w) = owners w"
  "tokenURIs (setMilestoneState pid idx st w) = tokenURIs w"
  "events (setMilestoneState pid idx st w) = events w"
  "tokenApprovals (setMilestoneState pid idx st w) = tokenApprovals w"
  "operatorApprovals (setMilestoneState pid idx st w) = operatorApprovals w"
  by (simp_all add: setMilestoneState_def Let_def)

lemma callee_None_iff: "callee ex hooks a w = None \<longleftrightarrow> refuses hooks a"
  by (cases a) (simp_all add: callee_def refuses_def run_hook_def)

lemma call_value_None_iff:
  "call_value (outside E ex) a v w = None \<longleftrightarrow> escrowBalance w < v \<or> refuses (onReceive E) a"
  by (simp add: call_value_def outside_def callee_None_iff)

subsection \<open>Later states\<close>

lemma project_advances_refl [simp]: "project_advances p p"
  by (simp add: project_advances_def)

lemma project_advances_trans:
  "project_advances p q \<Longrightarrow> project_advances q r \<Longrightarrow> project_advances p r"
  unfolding project_advances_def by (auto intro: le_trans)

lemma locked_frame_refl [simp]: "locked_frame w w"
  by (simp add: locked_frame_def)

lemma issued_on_completion_same:
  "(\<And>t. owners w t = address0 \<Longrightarrow> owners w' t = address0) \<Longrightarrow> issued_on_completion w w'"
  by (simp add: issued_on_completion_def)

lemma issued_on_completion_refl [simp]: "issued_on_completion w w"
  by (simp add: issued_on_completion_def)

lemma issued_on_completion_trans:
  assumes 12: "issued_on_completion w1 w2" and 23: "issued_on_completion w2 w3"
    and p: "\<And>pid. pid < projectCounter w2 \<Longrightarrow> project_advances (projects w2 pid) (projects w3 pid)"
    and c: "projectCounter w2 \<le> projectCounter w3"
    and e: "set (events w2) \<subseteq> set (events w3)"
  shows "issued_on_completion w1 w3"
  unfolding issued_on_completion_def
proof (intro allI impI)
  fix t
  assume o1: "owners w1 t = address0" and o3: "owners w3 t \<noteq> address0"
  let ?C = "\<lambda>w. t < projectCounter w \<and> isComplete (projects w t) \<and>
        milestones (projects w t) \<noteq> [] \<and> donor (projects w t) \<noteq> address0 \<and>
        FundsReleased t (length (milestones (projects w t)) - 1)
          (amount (milestones (projects w t) ! (length (milestones (projects w t)) - 1)))
          \<in> set (events w) \<and>
        Transfer address0 (donor (projects w t)) t \<in> set (events w)"
  show "?C w3"
  proof (cases "owners w2 t = address0")
    case True
    with 23 o3 show ?thesis unfolding issued_on_completion_def by blast
  next
    case False
    with 12 o1 have 2: "?C w2" unfolding issued_on_completion_def by blast
    then have lt: "t < projectCounter w2" by simp
    have pa: "project_advances (projects w2 t) (projects w3 t)" using lt by (rule p)
    have len: "length (milestones (projects w3 t)) = length (milestones (projects w2 t))"
      using pa by (simp add: project_advances_def)
    have ne: "milestones (projects w2 t) \<noteq> []" using 2 by simp
    then have i: "length (milestones (projects w2 t)) - 1 < length (milestones (projects w2 t))"
      by (cases "milestones (projects w2 t)") simp_all
    have am: "amount (milestones (projects w3 t) ! (length (milestones (projects w2 t)) - 1)) =
        amount (milestones (projects w2 t) ! (length (milestones (projects w2 t)) - 1))"
      using pa i by (simp add: project_advances_def)
    have d: "donor (projects w3 t) = donor (projects w2 t)"
      using pa 2 by (simp add: project_advances_def)
    have ic: "isComplete (projects w3 t)" using pa 2 by (simp add: project_advances_def)
    have ne3: "milestones (projects w3 t) \<noteq> []" using len ne by (metis length_0_conv)
    from 2 have "FundsReleased t (length (milestones (projects w2 t)) - 1)
          (amount (milestones (projects w2 t) ! (length (milestones (projects w2 t)) - 1)))
          \<in> set (events w3)"
      and "Transfer address0 (donor (projects w2 t)) t \<in> set (events w3)"
      using e by auto
    then show ?thesis using lt c ic ne3 d len am 2 by simp
  qed
qed

lemma advances_refl [simp]: "advances w w"
  by (simp add: advances_def)

lemma advances_trans:
  assumes "advances w1 w2" and "advances w2 w3"
  shows "advances w1 w3"
proof -
  have c: "projectCounter w1 \<le> projectCounter w2" "projectCounter w2 \<le> projectCounter w3"
    using assms by (simp_all add: advances_def)
  have p: "project_advances (projects w1 pid) (projects w3 pid)" if "pid < projectCounter w1" for pid
  proof -
    have "project_advances (projects w1 pid) (projects w2 pid)"
      using assms(1) that by (simp add: advances_def)
    moreover have "project_advances (projects w2 pid) (projects w3 pid)"
      using assms(2) that c by (simp add: advances_def)
    ultimately show ?thesis by (rule project_advances_trans)
  qed
  have l: "locked_frame w1 w3" if "entered w1"
  proof -
    have e2: "entered w2" using assms(1) that by (simp add: advances_def)
    have "locked_frame w1 w2" using assms(1) that by (simp add: advances_def)
    moreover have "locked_frame w2 w3" using assms(2) e2 by (simp add: advances_def)
    moreover have "tokenOwner w1 = ProjectEscrow \<longrightarrow> tokenOwner w2 = ProjectEscrow"
      using assms(1) by (simp add: advances_def)
    ultimately show ?thesis using c unfolding locked_frame_def by auto
  qed
  have o: "\<forall>t. owners w1 t \<noteq> address0 \<longrightarrow> owners w3 t \<noteq> address0"
    using assms unfolding advances_def by blast
  have r: "entered w3 = entered w1" "tokenOwner w1 = ProjectEscrow \<longrightarrow> tokenOwner w3 = ProjectEscrow"
     "set (events w1) \<subseteq> set (events w3)"
    using assms unfolding advances_def by auto
  have i: "issued_on_completion w1 w3" if t: "tokenOwner w1 = ProjectEscrow"
  proof (rule issued_on_completion_trans)
    show "issued_on_completion w1 w2" using assms(1) t by (simp add: advances_def)
    have "tokenOwner w2 = ProjectEscrow" using assms(1) t by (simp add: advances_def)
    then show "issued_on_completion w2 w3" using assms(2) by (simp add: advances_def)
    show "project_advances (projects w2 pid) (projects w3 pid)" if "pid < projectCounter w2" for pid
      using assms(2) that by (simp add: advances_def)
    show "projectCounter w2 \<le> projectCounter w3" by (rule c)
    show "set (events w2) \<subseteq> set (events w3)" using assms(2) by (simp add: advances_def)
  qed
  show ?thesis unfolding advances_def using c p l o r i by auto
qed

subsection \<open>Callees keep the invariant when calls do\<close>

lemma fold_attempt_keeps:
  "keeps ex \<Longrightarrow> wf w \<Longrightarrow> wf (fold (attempt ex) cs w) \<and> advances w (fold (attempt ex) cs w)"
proof (induction cs arbitrary: w)
  case Nil
  then show ?case by simp
next
  case (Cons c cs)
  have a: "wf (attempt ex c w) \<and> advances w (attempt ex c w)"
    using Cons.prems by (auto simp: attempt_def keeps_def split: sum.splits)
  with Cons.IH [OF Cons.prems(1), of "attempt ex c w"]
  show ?case by (auto intro: advances_trans)
qed

lemma callee_keeps:
  "keeps ex \<Longrightarrow> wf w \<Longrightarrow> callee ex hooks a w = Some w' \<Longrightarrow> wf w' \<and> advances w w'"
  by (cases a) (auto simp: callee_def run_hook_def dest: fold_attempt_keeps split: if_splits)

lemma civil_outside: "keeps ex \<Longrightarrow> civil (outside E ex)"
  unfolding civil_def outside_def by (auto dest: callee_keeps)

subsection \<open>The entry points keep the invariant\<close>

lemma mints_append [simp]: "mints (es @ [e]) t = mints es t + (if isMint t e then 1 else 0)"
  by (simp add: mints_def)

lemma createProject_keeps:
  assumes "wf w" and "createProject sender ngo amts descs w = Inr w'"
  shows "wf w' \<and> advances w w'"
proof -
  from assms(2) obtain ms tot where
    w': "w' = emit (ProjectCreated (projectCounter w) ngo tot)
            (w\<lparr>projects := (projects w)
                  (projectCounter w := (projects w (projectCounter w))
                     \<lparr>projectId := projectCounter w, creator := ngo, milestones := ms, totalAmount := tot\<rparr>),
               projectCounter := projectCounter w + 1\<rparr>)"
    by (auto simp: createProject_def Let_def split: if_splits sum.splits prod.splits)
  have "wf w'" using assms(1) by (simp add: w' wf_def emit_def)
  moreover have "advances w w'"
    by (auto simp: w' advances_def emit_def locked_frame_def intro: issued_on_completion_same)
  ultimately show ?thesis by simp
qed

lemma exists_below_counter: "wf w \<Longrightarrow> creator (projects w pid) \<noteq> address0 \<Longrightarrow> pid < projectCounter w"
  by (rule ccontr) (simp add: wf_def emptyProject_def not_less)

lemma donate_keeps:
  assumes "wf w" and "donate sender v pid w = Inr w'"
  shows "wf w' \<and> advances w w'"
proof -
  from assms(2) have ne: "\<not> entered w" and c: "creator (projects w pid) \<noteq> address0"
    and d: "donor (projects w pid) = address0"
    and w': "w' = (emit (DonationReceived pid sender v)
              (w\<lparr>entered := True, escrowBalance := escrowBalance w + v,
                 projects := (projects w)(pid := (projects w pid)\<lparr>fundsRaised := v, donor := sender\<rparr>)\<rparr>))
              \<lparr>entered := False\<rparr>"
    by (auto simp: donate_def nonReentrant_def Let_def emit_def split: if_splits sum.splits)
  have lt: "pid < projectCounter w" using assms(1) c by (rule exists_below_counter)
  have "wf w'" using assms(1) lt by (auto simp: w' wf_def emit_def)
  moreover have "advances w w'"
    using ne d
    by (auto simp: w' advances_def emit_def project_advances_def intro: issued_on_completion_same)
  ultimately show ?thesis by simp
qed

lemma ownership_keeps:
  assumes "wf w"
  shows "tokenTransferOwnership sender a w = Inr w' \<Longrightarrow> sender \<noteq> ProjectEscrow \<Longrightarrow> wf w' \<and> advances w w'"
    and "tokenRenounceOwnership sender w = Inr w' \<Longrightarrow> sender \<noteq> ProjectEscrow \<Longrightarrow> wf w' \<and> advances w w'"
    and "escrowTransferOwnership sender a w = Inr w' \<Longrightarrow> wf w' \<and> advances w w'"
    and "escrowRenounceOwnership sender w = Inr w' \<Longrightarrow> wf w' \<and> advances w w'"
  using assms
  by (auto simp: tokenTransferOwnership_def tokenRenounceOwnership_def escrowTransferOwnership_def
      escrowRenounceOwnership_def onlyOwner_def wf_def advances_def locked_frame_def
      intro: issued_on_completion_same split: if_splits)

lemma wf_mint: "wf w \<Longrightarrow> owners w t = address0 \<Longrightarrow> to \<noteq> address0 \<Longrightarrow> wf (mint to t w)"
  by (auto simp: wf_def mint_def)

lemma safeMint_Inr:
  assumes "wf w" and "civil X" and "safeMint X sender to t uri w = Inr w'"
  obtains w2 where "sender = tokenOwner w" and "to \<noteq> address0" and "owners w t = address0"
    and "ack X to (mint to t w) = Some w2" and "wf w2" and "advances (mint to t w) w2"
    and "w' = w2\<lparr>tokenURIs := (tokenURIs w2)(t := uri)\<rparr>"
proof -
  from assms(3) have s: "sender = tokenOwner w" and n: "to \<noteq> address0" and o: "owners w t = address0"
    by (auto simp: safeMint_def onlyOwner_def split: if_splits)
  from assms(3) s n o obtain w2 where a: "ack X to (mint to t w) = Some w2"
    and w': "w' = w2\<lparr>tokenURIs := (tokenURIs w2)(t := uri)\<rparr>"
    by (auto simp: safeMint_def onlyOwner_def mint_def Let_def split: option.splits)
  have "wf (mint to t w)" using assms(1) o n by (rule wf_mint)
  with assms(2) a have "wf w2 \<and> advances (mint to t w) w2"
    unfolding civil_def by blast
  with s n o a w' that show thesis by blast
qed

lemma advances_mint:
  "owners w t = address0 \<Longrightarrow> tokenOwner w \<noteq> ProjectEscrow \<Longrightarrow> advances w (mint to t w)"
  by (auto simp: advances_def mint_def locked_frame_def)

lemma advances_tokenURIs:
  "advances w w2 \<Longrightarrow> tokenOwner w \<noteq> ProjectEscrow \<Longrightarrow> advances w (w2\<lparr>tokenURIs := f\<rparr>)"
  by (auto simp: advances_def locked_frame_def)

lemma safeMint_keeps:
  assumes "wf w" and "civil X" and "safeMint X sender to t uri w = Inr w'"
    and "sender \<noteq> ProjectEscrow"
  shows "wf w' \<and> advances w w'"
proof -
  from assms(1-3) obtain w2 where s: "sender = tokenOwner w" and o: "owners w t = address0"
    and w2: "wf w2" "advances (mint to t w) w2"
    and w': "w' = w2\<lparr>tokenURIs := (tokenURIs w2)(t := uri)\<rparr>"
    by (rule safeMint_Inr)
  have ne: "tokenOwner w \<noteq> ProjectEscrow" using s assms(4) by simp
  have "advances w (mint to t w)" using o ne by (rule advances_mint)
  then have "advances w w2" using w2(2) by (rule advances_trans)
  then have "advances w w'" unfolding w' using ne by (rule advances_tokenURIs)
  moreover have "wf w'" using w2(1) by (simp add: w' wf_def)
  ultimately show ?thesis by simp
qed

subsection \<open>A call of verifyMilestone, step by step\<close>

lemma releaseFunds_unfold:
  "releaseFunds X pid idx w =
     (if \<not> idx < length (milestones (projects w pid)) then Inl (Panic 50)
      else case call_value X (creator (projects w pid)) (amount (milestones (projects w pid) ! idx)) w of
          None \<Rightarrow> Inl (Revert ''Fund transfer failed.'')
        | Some w1 \<Rightarrow>
            if \<not> idx < length (milestones (projects w1 pid)) then Inl (Panic 50)
            else if Suc idx = length (milestones (projects w1 pid)) then
              safeMint X ProjectEscrow (donor (projects w1 pid)) pid (constructTokenURI pid)
                (completed pid (settled pid idx w1))
            else Inr (settled pid idx w1))"
  by (auto simp: releaseFunds_def settled_def completed_def Let_def split: option.splits)

lemma verifyMilestone_unfold:
  "verifyMilestone X sender pid idx w =
     (if sender \<noteq> escrowOwner w then Inl (OwnableUnauthorizedAccount sender)
      else if entered w then Inl ReentrancyGuardReentrantCall
      else if creator (projects w pid) = address0 then Inl (Revert ''Project does not exist'')
      else if \<not> idx < length (milestones (projects w pid)) then Inl (Revert ''Invalid milestone index'')
      else if state (milestones (projects w pid) ! idx) \<noteq> Pending
        then Inl (Revert ''Milestone not pending verification'')
      else if escrowBalance w < amount (milestones (projects w pid) ! idx)
        then Inl (Revert ''Fund transfer failed.'')
      else case pay X (creator (projects w pid)) (verifying pid idx w) of
          None \<Rightarrow> Inl (Revert ''Fund transfer failed.'')
        | Some w1 \<Rightarrow>
            if \<not> idx < length (milestones (projects w1 pid)) then Inl (Panic 50)
            else if Suc idx = length (milestones (projects w1 pid)) then
              (case safeMint X ProjectEscrow (donor (projects w1 pid)) pid (constructTokenURI pid)
                      (completed pid (settled pid idx w1)) of
                 Inl e \<Rightarrow> Inl e
               | Inr w4 \<Rightarrow> Inr (w4\<lparr>entered := False\<rparr>))
            else Inr ((settled pid idx w1)\<lparr>entered := False\<rparr>))"
  by (simp add: verifyMilestone_def onlyOwner_def nonReentrant_def releaseFunds_unfold
      call_value_def verifying_def Let_def
      split: option.splits)

lemma verifying_fields [simp]:
  "projects (verifying pid idx w) =
     (projects w)(pid := (projects w pid)
        \<lparr>milestones := (milestones (projects w pid))
           [idx := (milestones (projects w pid) ! idx)\<lparr>state := Verified\<rparr>]\<rparr>)"
  "projectCounter (verifying pid idx w) = projectCounter w"
  "escrowOwner (verifying pid idx w) = escrowOwner w"
  "entered (verifying pid idx w)"
  "escrowBalance (verifying pid idx w) = escrowBalance w - amount (milestones (projects w pid) ! idx)"
  "received (verifying pid idx w) =
     (received w)(creator (projects w pid) :=
        received w (creator (projects w pid)) + amount (milestones (projects w pid) ! idx))"
  "tokenOwner (verifying pid idx w) = tokenOwner w"
  "owners (verifying pid idx w) = owners w"
  "tokenURIs (verifying pid idx w) = tokenURIs w"
  "events (verifying pid idx w) = events w @ [MilestoneVerified pid idx]"
  "tokenApprovals (verifying pid idx w) = tokenApprovals w"
  "operatorApprovals (verifying pid idx w) = operatorApprovals w"
  by (simp_all add: verifying_def Let_def)

lemma settled_fields [simp]:
  "projects (settled pid idx w) =
     (projects w)(pid := (projects w pid)
        \<lparr>milestones := (milestones (projects w pid))
           [idx := (milestones (projects w pid) ! idx)\<lparr>state := Paid\<rparr>]\<rparr>)"
  "projectCounter (settled pid idx w) = projectCounter w"
  "escrowOwner (settled pid idx w) = escrowOwner w"
  "entered (settled pid idx w) = entered w"
  "escrowBalance (settled pid idx w) = escrowBalance w"
  "received (settled pid idx w) = received w"
  "tokenOwner (settled pid idx w) = tokenOwner w"
  "owners (settled pid idx w) = owners w"
  "tokenURIs (settled pid idx w) = tokenURIs w"
  "events (settled pid idx w) =
     events w @ [FundsReleased pid idx (amount (milestones (projects w pid) ! idx))]"
  "tokenApprovals (settled pid idx w) = tokenApprovals w"
  "operatorApprovals (settled pid idx w) = operatorApprovals w"
  by (simp_all add: settled_def)

lemma completed_fields [simp]:
  "projects (completed pid w) = (projects w)(pid := (projects w pid)\<lparr>isComplete := True\<rparr>)"
  "projectCounter (completed pid w) = projectCounter w"
  "escrowOwner (completed pid w) = escrowOwner w"
  "entered (completed pid w) = entered w"
  "escrowBalance (completed pid w) = escrowBalance w"
  "received (completed pid w) = received w"
  "tokenOwner (completed pid w) = tokenOwner w"
  "owners (completed pid w) = owners w"
  "tokenURIs (completed pid w) = tokenURIs w"
  "events (completed pid w) = events w"
  "tokenApprovals (completed pid w) = tokenApprovals w"
  "operatorApprovals (completed pid w) = operatorApprovals w"
  by (simp_all add: completed_def)

lemma mint_fields [simp]:
  "projects (mint to t w) = projects w"
  "projectCounter (mint to t w) = projectCounter w"
  "escrowOwner (mint to t w) = escrowOwner w"
  "entered (mint to t w) = entered w"
  "escrowBalance (mint to t w) = escrowBalance w"
  "received (mint to t w) = received w"
  "tokenOwner (mint to t w) = tokenOwner w"
  "owners (mint to t w) = (owners w)(t := to)"
  "tokenURIs (mint to t w) = tokenURIs w"
  "events (mint to t w) = events w @ [Transfer address0 to t]"
  "tokenApprovals (mint to t w) = tokenApprovals w"
  "operatorApprovals (mint to t w) = operatorApprovals w"
  by (simp_all add: mint_def)

lemma wf_verifying: "wf w \<Longrightarrow> pid < projectCounter w \<Longrightarrow> wf (verifying pid idx w)"
  by (auto simp: wf_def)

lemma wf_settled: "wf w \<Longrightarrow> pid < projectCounter w \<Longrightarrow> wf (settled pid idx w)"
  by (auto simp: wf_def)

lemma wf_completed: "wf w \<Longrightarrow> pid < projectCounter w \<Longrightarrow> wf (completed pid w)"
  by (auto simp: wf_def)

lemma civil_locked:
  assumes "civil X" and "wf v" and "entered v"
    and "pay X a v = Some v' \<or> ack X a v = Some v'"
  shows "wf v'" and "entered v'" and "projectCounter v \<le> projectCounter v'"
    and "\<And>q. q < projectCounter v \<Longrightarrow> projects v' q = projects v q"
    and "escrowBalance v' = escrowBalance v" and "received v' = received v"
    and "\<And>t. owners v t \<noteq> address0 \<Longrightarrow> owners v' t \<noteq> address0"
    and "tokenOwner v = ProjectEscrow \<Longrightarrow> tokenOwner v' = ProjectEscrow"
    and "\<And>t. tokenOwner v = ProjectEscrow \<Longrightarrow> owners v t = address0 \<Longrightarrow> owners v' t = address0"
    and "tokenOwner v = ProjectEscrow \<Longrightarrow> tokenURIs v' = tokenURIs v"
    and "set (events v) \<subseteq> set (events v')"
proof -
  have a: "wf v' \<and> advances v v'"
    using assms unfolding civil_def by blast
  then show "wf v'" by simp
  from a have adv: "advances v v'" by simp
  then have l: "locked_frame v v'" using assms(3) by (simp add: advances_def)
  show "entered v'" using adv assms(3) by (simp add: advances_def)
  show "projectCounter v \<le> projectCounter v'" using adv by (simp add: advances_def)
  show "\<And>q. q < projectCounter v \<Longrightarrow> projects v' q = projects v q"
    using l by (simp add: locked_frame_def)
  show "escrowBalance v' = escrowBalance v" "received v' = received v"
    using l by (simp_all add: locked_frame_def)
  show "\<And>t. owners v t \<noteq> address0 \<Longrightarrow> owners v' t \<noteq> address0"
    using adv by (simp add: advances_def)
  show "tokenOwner v = ProjectEscrow \<Longrightarrow> tokenOwner v' = ProjectEscrow"
    using adv by (simp add: advances_def)
  show "\<And>t. tokenOwner v = ProjectEscrow \<Longrightarrow> owners v t = address0 \<Longrightarrow> owners v' t = address0"
    "tokenOwner v = ProjectEscrow \<Longrightarrow> tokenURIs v' = tokenURIs v"
    using l by (simp_all add: locked_frame_def)
  show "set (events v) \<subseteq> set (events v')" using adv by (simp add: advances_def)
qed

subsection \<open>What a call of verifyMilestone that returns has done\<close>

text \<open>
  Every callee runs with the guard taken, in a state that satisfies the invariant, and can
  only make calls that keep it: it leaves the projects, the escrow's ether and (under the
  escrow's ownership) the set of certificates as they were, though it may pass a
  certificate on. So the result of the call, the holders apart, is what
  the code of \<open>verifyMilestone\<close> and \<open>_releaseFunds\<close> writes.
\<close>

lemma verifyMilestone_Inr:
  fixes w :: world and pid idx :: nat
  defines "p \<equiv> projects w pid"
  defines "a \<equiv> amount (milestones (projects w pid) ! idx)"
  assumes wf: "wf w" and X: "civil X" and v: "verifyMilestone X sender pid idx w = Inr w'"
  shows "sender = escrowOwner w" and "\<not> entered w" and "creator p \<noteq> address0"
    and "idx < length (milestones p)" and "state (milestones p ! idx) = Pending"
    and "a \<le> escrowBalance w" and "pid < projectCounter w"
    and "wf w'" and "\<not> entered w'" and "projectCounter w \<le> projectCounter w'"
    and "projects w' pid =
           p\<lparr>milestones := (milestones p)[idx := (milestones p ! idx)\<lparr>state := Paid\<rparr>],
             isComplete := (Suc idx = length (milestones p) \<or> isComplete p)\<rparr>"
    and "\<And>q. q < projectCounter w \<Longrightarrow> q \<noteq> pid \<Longrightarrow> projects w' q = projects w q"
    and "escrowBalance w' = escrowBalance w - a"
    and "received w' = (received w)(creator p := received w (creator p) + a)"
    and "\<And>t. owners w t \<noteq> address0 \<Longrightarrow> owners w' t \<noteq> address0"
    and "tokenOwner w = ProjectEscrow \<Longrightarrow> tokenOwner w' = ProjectEscrow"
    and "Suc idx = length (milestones p) \<Longrightarrow>
           owners w' pid \<noteq> address0 \<and> donor p \<noteq> address0 \<and> owners w pid = address0
           \<and> tokenOwner w' = ProjectEscrow
           \<and> Transfer address0 (donor p) pid \<in> set (events w')"
    and "Suc idx = length (milestones p) \<Longrightarrow> tokenOwner w = ProjectEscrow \<Longrightarrow>
           (\<forall>t. t \<noteq> pid \<longrightarrow> owners w t = address0 \<longrightarrow> owners w' t = address0)"
    and "Suc idx \<noteq> length (milestones p) \<Longrightarrow> tokenOwner w = ProjectEscrow \<Longrightarrow>
           (\<forall>t. owners w t = address0 \<longrightarrow> owners w' t = address0) \<and> tokenURIs w' = tokenURIs w"
    and "set (events w) \<union> {MilestoneVerified pid idx, FundsReleased pid idx a} \<subseteq> set (events w')"
    and "Suc idx = length (milestones p) \<Longrightarrow>
           \<exists>m w2. owners m pid = donor p \<and> ack X (donor p) m = Some w2 \<and> owners w' = owners w2"
proof -
  let ?v = "verifying pid idx w"
  from v have pre: "sender = escrowOwner w" "\<not> entered w" "creator p \<noteq> address0"
    "idx < length (milestones p)" "state (milestones p ! idx) = Pending" "a \<le> escrowBalance w"
    unfolding p_def a_def by (auto simp: verifyMilestone_unfold split: if_splits)
  show "sender = escrowOwner w" "\<not> entered w" "creator p \<noteq> address0"
    "idx < length (milestones p)" "state (milestones p ! idx) = Pending" "a \<le> escrowBalance w"
    by (fact pre)+
  have lt: "pid < projectCounter w"
    using wf pre(3) unfolding p_def by (rule exists_below_counter)
  show "pid < projectCounter w" by (fact lt)
  from v pre obtain w1 where pay: "pay X (creator p) ?v = Some w1"
    unfolding p_def a_def by (auto simp: verifyMilestone_unfold split: if_splits option.splits)
  have wfv: "wf ?v" using wf lt by (rule wf_verifying)
  have ev: "entered ?v" by simp
  note L = civil_locked [OF X wfv ev disjI1 [OF pay]]
  have p1: "projects w1 pid = p\<lparr>milestones := (milestones p)[idx := (milestones p ! idx)\<lparr>state := Verified\<rparr>]\<rparr>"
    using L(4) [of pid] lt by (simp add: p_def)
  have len1: "length (milestones (projects w1 pid)) = length (milestones p)"
    by (simp add: p1)
  have lt1: "pid < projectCounter w1" using lt L(3) by simp
  let ?s = "settled pid idx w1"
  have wfs: "wf ?s" using L(1) lt1 by (rule wf_settled)
  have ps: "projects ?s pid = p\<lparr>milestones := (milestones p)[idx := (milestones p ! idx)\<lparr>state := Paid\<rparr>]\<rparr>"
    using pre(4) by (simp add: p1)
  have amt: "amount (milestones (projects w1 pid) ! idx) = a"
    using pre(4) by (simp add: p1 a_def p_def)
  have others1: "projects ?s q = projects w q" if "q < projectCounter w" "q \<noteq> pid" for q
    using L(4) [of q] that by simp
  have evs: "set (events w) \<union> {MilestoneVerified pid idx, FundsReleased pid idx a} \<subseteq> set (events ?s)"
    using L(11) amt by auto
  have all: "wf w' \<and> \<not> entered w' \<and> projectCounter w \<le> projectCounter w' \<and>
    projects w' pid =
           p\<lparr>milestones := (milestones p)[idx := (milestones p ! idx)\<lparr>state := Paid\<rparr>],
             isComplete := (Suc idx = length (milestones p) \<or> isComplete p)\<rparr> \<and>
    (\<forall>q. q < projectCounter w \<longrightarrow> q \<noteq> pid \<longrightarrow> projects w' q = projects w q) \<and>
    escrowBalance w' = escrowBalance w - a \<and>
    received w' = (received w)(creator p := received w (creator p) + a) \<and>
    (\<forall>t. owners w t \<noteq> address0 \<longrightarrow> owners w' t \<noteq> address0) \<and>
    (tokenOwner w = ProjectEscrow \<longrightarrow> tokenOwner w' = ProjectEscrow) \<and>
    (Suc idx = length (milestones p) \<longrightarrow>
           owners w' pid \<noteq> address0 \<and> donor p \<noteq> address0 \<and> owners w pid = address0
           \<and> tokenOwner w' = ProjectEscrow
           \<and> Transfer address0 (donor p) pid \<in> set (events w')) \<and>
    (Suc idx = length (milestones p) \<longrightarrow> tokenOwner w = ProjectEscrow \<longrightarrow>
           (\<forall>t. t \<noteq> pid \<longrightarrow> owners w t = address0 \<longrightarrow> owners w' t = address0)) \<and>
    (Suc idx \<noteq> length (milestones p) \<longrightarrow> tokenOwner w = ProjectEscrow \<longrightarrow>
           (\<forall>t. owners w t = address0 \<longrightarrow> owners w' t = address0) \<and> tokenURIs w' = tokenURIs w) \<and>
    set (events w) \<union> {MilestoneVerified pid idx, FundsReleased pid idx a} \<subseteq> set (events w') \<and>
    (Suc idx = length (milestones p) \<longrightarrow>
           (\<exists>m w2. owners m pid = donor p \<and> ack X (donor p) m = Some w2 \<and> owners w' = owners w2))"
  proof (cases "Suc idx = length (milestones p)")
    case False
    with v pre pay len1 have w': "w' = ?s\<lparr>entered := False\<rparr>"
      unfolding p_def a_def by (auto simp: verifyMilestone_unfold split: if_splits)
    have "wf w'" using wfs by (simp add: w' wf_def)
    moreover have "projects w' pid = p\<lparr>milestones := (milestones p)[idx := (milestones p ! idx)\<lparr>state := Paid\<rparr>],
             isComplete := (Suc idx = length (milestones p) \<or> isComplete p)\<rparr>"
      using False by (simp add: w' ps del: settled_fields(1))
    moreover have "\<And>q. q < projectCounter w \<Longrightarrow> q \<noteq> pid \<Longrightarrow> projects w' q = projects w q"
      using others1 by (simp add: w' del: settled_fields(1))
    moreover have "set (events w) \<union> {MilestoneVerified pid idx, FundsReleased pid idx a} \<subseteq> set (events w')"
      using evs by (simp add: w' del: settled_fields(10))
    moreover have "escrowBalance w' = escrowBalance w - a"
      "received w' = (received w)(creator p := received w (creator p) + a)"
      "projectCounter w \<le> projectCounter w'" "\<not> entered w'"
      using L(3,5,6) by (simp_all add: w' a_def p_def)
    moreover have "\<And>t. owners w t \<noteq> address0 \<Longrightarrow> owners w' t \<noteq> address0"
      using L(7) by (simp add: w')
    moreover have "tokenOwner w = ProjectEscrow \<Longrightarrow> tokenOwner w' = ProjectEscrow"
      using L(8) by (simp add: w')
    moreover have "tokenOwner w = ProjectEscrow \<Longrightarrow>
        (\<forall>t. owners w t = address0 \<longrightarrow> owners w' t = address0) \<and> tokenURIs w' = tokenURIs w"
      using L(9,10) by (simp add: w')
    ultimately show "?thesis" using False by blast
  next
    case True
    let ?c = "completed pid ?s"
    have dn: "donor (projects w1 pid) = donor p" by (simp add: p1)
    from v pre pay len1 True dn obtain w4 where
      sm: "safeMint X ProjectEscrow (donor p) pid (constructTokenURI pid) ?c = Inr w4"
      and w': "w' = w4\<lparr>entered := False\<rparr>"
      unfolding p_def a_def
      by (auto simp: verifyMilestone_unfold split: if_splits sum.splits)
    have wfc: "wf ?c" using wfs lt1 by (intro wf_completed) simp_all
    from wfc X sm obtain w2 where to: "ProjectEscrow = tokenOwner ?c" and dz: "donor p \<noteq> address0"
      and oz: "owners ?c pid = address0"
      and ack: "ack X (donor p) (mint (donor p) pid ?c) = Some w2"
      and w4: "w4 = w2\<lparr>tokenURIs := (tokenURIs w2)(pid := constructTokenURI pid)\<rparr>"
      by (rule safeMint_Inr)
    let ?m = "mint (donor p) pid ?c"
    have wfm: "wf ?m" using wfc oz dz by (rule wf_mint)
    have em: "entered ?m" using L(2) by simp
    note M = civil_locked [OF X wfm em disjI2 [OF ack]]
    have tm: "tokenOwner ?m = ProjectEscrow" using to by simp
    have o1: "owners w1 pid = address0" using oz by simp
    have ow: "owners w pid = address0"
      using L(7) [of pid] o1 by auto
    have pc: "projects ?c pid = p\<lparr>milestones := (milestones p)[idx := (milestones p ! idx)\<lparr>state := Paid\<rparr>],
             isComplete := True\<rparr>"
      using ps by (simp del: settled_fields(1))
    have "wf w'" using M(1) by (simp add: w' w4 wf_def)
    moreover have "projects w' pid = p\<lparr>milestones := (milestones p)[idx := (milestones p ! idx)\<lparr>state := Paid\<rparr>],
             isComplete := (Suc idx = length (milestones p) \<or> isComplete p)\<rparr>"
      using M(4) [of pid] lt1 pc True by (simp add: w' w4 del: settled_fields(1) completed_fields(1))
    moreover have "projects w' q = projects w q" if "q < projectCounter w" "q \<noteq> pid" for q
    proof -
      have "q < projectCounter ?m" using that(1) L(3) by simp
      from M(4) [OF this] have "projects w2 q = projects ?s q" using that(2) by simp
      then show ?thesis using others1 [OF that] by (simp add: w' w4)
    qed
    moreover have "set (events w) \<union> {MilestoneVerified pid idx, FundsReleased pid idx a} \<subseteq> set (events w')"
      using evs M(11) by (auto simp add: w' w4 simp del: settled_fields(10))
    moreover have "escrowBalance w' = escrowBalance w - a"
      "received w' = (received w)(creator p := received w (creator p) + a)"
      "projectCounter w \<le> projectCounter w'" "\<not> entered w'"
      using L(3,5,6) M(3,5,6) by (simp_all add: w' w4 a_def p_def)
    moreover have "owners w t \<noteq> address0 \<Longrightarrow> owners w' t \<noteq> address0" for t
    proof -
      assume "owners w t \<noteq> address0"
      then have "owners w1 t \<noteq> address0" using L(7) [of t] by simp
      then have "owners ?m t \<noteq> address0" using dz by simp
      then have "owners w2 t \<noteq> address0" by (rule M(7))
      then show ?thesis by (simp add: w' w4)
    qed
    moreover have tw': "tokenOwner w' = ProjectEscrow"
      using M(8) [OF tm] by (simp add: w' w4)
    moreover have "owners w' t = address0"
      if "tokenOwner w = ProjectEscrow" "t \<noteq> pid" "owners w t = address0" for t
    proof -
      have "owners w1 t = address0" using L(9) [of t] that by simp
      then have "owners ?m t = address0" using that(2) by simp
      with M(9) [OF tm] have "owners w2 t = address0" .
      then show ?thesis by (simp add: w' w4)
    qed
    moreover have "owners w' pid \<noteq> address0"
    proof -
      have "owners ?m pid \<noteq> address0" using dz by simp
      then have "owners w2 pid \<noteq> address0" by (rule M(7))
      then show ?thesis by (simp add: w' w4)
    qed
    moreover have "Transfer address0 (donor p) pid \<in> set (events w')"
      using M(11) by (auto simp: w' w4)
    moreover have "\<exists>m w2. owners m pid = donor p \<and> ack X (donor p) m = Some w2 \<and> owners w' = owners w2"
      using ack by (intro exI [of _ ?m] exI [of _ w2]) (simp add: w' w4)
    ultimately show "?thesis" using True dz ow by blast
  qed
  show "wf w'" "\<not> entered w'" "projectCounter w \<le> projectCounter w'"
    "projects w' pid =
           p\<lparr>milestones := (milestones p)[idx := (milestones p ! idx)\<lparr>state := Paid\<rparr>],
             isComplete := (Suc idx = length (milestones p) \<or> isComplete p)\<rparr>"
    "\<And>q. q < projectCounter w \<Longrightarrow> q \<noteq> pid \<Longrightarrow> projects w' q = projects w q"
    "escrowBalance w' = escrowBalance w - a"
    "received w' = (received w)(creator p := received w (creator p) + a)"
    "\<And>t. owners w t \<noteq> address0 \<Longrightarrow> owners w' t \<noteq> address0"
    "tokenOwner w = ProjectEscrow \<Longrightarrow> tokenOwner w' = ProjectEscrow"
    "Suc idx = length (milestones p) \<Longrightarrow>
           owners w' pid \<noteq> address0 \<and> donor p \<noteq> address0 \<and> owners w pid = address0
           \<and> tokenOwner w' = ProjectEscrow
           \<and> Transfer address0 (donor p) pid \<in> set (events w')"
    "Suc idx = length (milestones p) \<Longrightarrow> tokenOwner w = ProjectEscrow \<Longrightarrow>
           (\<forall>t. t \<noteq> pid \<longrightarrow> owners w t = address0 \<longrightarrow> owners w' t = address0)"
    "Suc idx \<noteq> length (milestones p) \<Longrightarrow> tokenOwner w = ProjectEscrow \<Longrightarrow>
           (\<forall>t. owners w t = address0 \<longrightarrow> owners w' t = address0) \<and> tokenURIs w' = tokenURIs w"
    "set (events w) \<union> {MilestoneVerified pid idx, FundsReleased pid idx a} \<subseteq> set (events w')"
    "Suc idx = length (milestones p) \<Longrightarrow>
           \<exists>m w2. owners m pid = donor p \<and> ack X (donor p) m = Some w2 \<and> owners w' = owners w2"
    using all by blast+
qed

subsection \<open>Every call keeps the invariant\<close>

lemma rank_le_2 [simp]: "rank s \<le> 2"
  by (cases s) simp_all

lemma verifyMilestone_keeps:
  assumes "wf w" and "civil X" and "verifyMilestone X sender pid idx w = Inr w'"
  shows "wf w' \<and> advances w w'"
proof -
  note V = verifyMilestone_Inr [OF assms]
  have "project_advances (projects w q) (projects w' q)" if "q < projectCounter w" for q
  proof (cases "q = pid")
    case True
    show ?thesis unfolding True V(11)
      using V(4) by (auto simp: project_advances_def nth_list_update)
  next
    case False
    with V(12) that show ?thesis by simp
  qed
  moreover have "set (events w) \<subseteq> set (events w')" using V(20) by simp
  moreover have "issued_on_completion w w'" if t: "tokenOwner w = ProjectEscrow"
  proof (cases "Suc idx = length (milestones (projects w pid))")
    case False
    from V(19) [OF False t] show ?thesis by (intro issued_on_completion_same) simp
  next
    case True
    have i: "idx = length (milestones (projects w pid)) - 1" using True by simp
    have "t' = pid" if "owners w t' = address0" "owners w' t' \<noteq> address0" for t'
      using V(18) [OF True t] that by blast
    moreover have "pid < projectCounter w'" using V(7,10) by simp
    moreover have "isComplete (projects w' pid)" unfolding V(11) using True by simp
    moreover have "milestones (projects w' pid) \<noteq> []" unfolding V(11) using V(4) by auto
    moreover have "donor (projects w' pid) = donor (projects w pid)" unfolding V(11) by simp
    moreover have "length (milestones (projects w' pid)) - 1 = idx" unfolding V(11) using i by simp
    moreover have "amount (milestones (projects w' pid) ! idx) =
        amount (milestones (projects w pid) ! idx)"
      unfolding V(11) using V(4) by simp
    moreover have "FundsReleased pid idx (amount (milestones (projects w pid) ! idx)) \<in> set (events w')"
      using V(20) by simp
    ultimately show ?thesis using V(17) [OF True] unfolding issued_on_completion_def by metis
  qed
  ultimately have "advances w w'"
    using V(2,9,10,15,16) by (simp add: advances_def)
  with V(8) show ?thesis by simp
qed

lemma isAuthorized_owner:
  "wf w \<Longrightarrow> isAuthorized w (owners w t) sender t \<Longrightarrow> owners w t \<noteq> address0"
  by (auto simp: isAuthorized_def wf_def)

lemma transferFrom_Inr:
  assumes "wf w" and "transferFrom sender from to t w = Inr w'"
  shows "to \<noteq> address0" and "owners w t \<noteq> address0" and "from = owners w t"
    and "isAuthorized w (owners w t) sender t"
    and "w' = emit (Transfer (owners w t) to t)
           (w\<lparr>tokenApprovals := (tokenApprovals w)(t := address0), owners := (owners w)(t := to)\<rparr>)"
proof -
  from assms(2) show n: "to \<noteq> address0" and a: "isAuthorized w (owners w t) sender t"
    and "from = owners w t"
    by (auto simp: transferFrom_def Let_def split: if_splits)
  from assms(1) a show o: "owners w t \<noteq> address0" by (rule isAuthorized_owner)
  from assms(2) o show "w' = emit (Transfer (owners w t) to t)
           (w\<lparr>tokenApprovals := (tokenApprovals w)(t := address0), owners := (owners w)(t := to)\<rparr>)"
    by (auto simp: transferFrom_def Let_def split: if_splits)
qed

lemma transferFrom_keeps:
  assumes "wf w" and "transferFrom sender from to t w = Inr w'"
  shows "wf w' \<and> advances w w'"
proof -
  note T = transferFrom_Inr [OF assms]
  have "wf w'" using assms(1) T(1,2) by (auto simp: T(5) wf_def)
  moreover have "advances w w'"
    using T(1,2) by (auto simp: T(5) advances_def locked_frame_def intro: issued_on_completion_same)
  ultimately show ?thesis by simp
qed

lemma safeTransferFrom_keeps:
  assumes "wf w" and "civil X" and "safeTransferFrom X sender from to t w = Inr w'"
  shows "wf w' \<and> advances w w'"
proof -
  from assms(3) obtain w1 where t: "transferFrom sender from to t w = Inr w1"
    and a: "ack X to w1 = Some w'"
    by (auto simp: safeTransferFrom_def split: sum.splits option.splits)
  from assms(1) t have 1: "wf w1 \<and> advances w w1" by (rule transferFrom_keeps)
  with assms(2) a have "wf w' \<and> advances w1 w'" unfolding civil_def by blast
  with 1 show ?thesis by (auto intro: advances_trans)
qed

lemma approve_keeps:
  assumes "wf w" and "approve sender to t w = Inr w'"
  shows "wf w' \<and> advances w w'"
proof -
  from assms(2) have o: "owners w t \<noteq> address0"
    and w': "w' = emit (Approval (owners w t) to t) (w\<lparr>tokenApprovals := (tokenApprovals w)(t := to)\<rparr>)"
    by (auto simp: approve_def Let_def split: if_splits)
  have "wf w'" using assms(1) o by (auto simp: w' wf_def)
  moreover have "advances w w'"
    by (auto simp: w' advances_def locked_frame_def intro: issued_on_completion_same)
  ultimately show ?thesis by simp
qed

lemma setApprovalForAll_keeps:
  assumes "wf w" and "setApprovalForAll sender operator approved w = Inr w'"
    and "sender \<noteq> address0"
  shows "wf w' \<and> advances w w'"
proof -
  from assms(2) have w': "w' = emit (ApprovalForAll sender operator approved)
      (w\<lparr>operatorApprovals :=
           (operatorApprovals w)(sender := (operatorApprovals w sender)(operator := approved))\<rparr>)"
    by (auto simp: setApprovalForAll_def split: if_splits)
  have "wf w'" using assms(1,3) by (auto simp: w' wf_def)
  moreover have "advances w w'"
    by (auto simp: w' advances_def locked_frame_def intro: issued_on_completion_same)
  ultimately show ?thesis by simp
qed

lemma dispatch_keeps:
  assumes "wf w" and "civil X" and "dispatch X c w = Inr w'"
  shows "wf w' \<and> advances w w'"
proof (cases c)
  case (Call n a)
  show ?thesis
  proof (cases a)
    case (CreateProject ngo amts descs)
    with Call assms show ?thesis by (auto dest: createProject_keeps)
  next
    case (Donate pid v)
    with Call assms show ?thesis by (auto dest: donate_keeps)
  next
    case (VerifyMilestone pid idx)
    with Call assms show ?thesis by (auto dest: verifyMilestone_keeps)
  next
    case (SafeMint to t uri)
    with Call assms show ?thesis by (auto dest: safeMint_keeps)
  next
    case (TransferFrom src to t)
    with Call assms show ?thesis by (auto dest: transferFrom_keeps)
  next
    case (SafeTransferFrom src to t)
    with Call assms show ?thesis by (auto dest: safeTransferFrom_keeps)
  next
    case (Approve to t)
    with Call assms show ?thesis by (auto dest: approve_keeps)
  next
    case (SetApprovalForAll operator approved)
    with Call assms show ?thesis by (auto dest: setApprovalForAll_keeps)
  next
    case (TokenTransferOwnership b)
    with Call assms show ?thesis by (auto dest: ownership_keeps(1))
  next
    case TokenRenounceOwnership
    with Call assms show ?thesis by (auto dest: ownership_keeps(2))
  next
    case (EscrowTransferOwnership b)
    with Call assms show ?thesis by (auto dest: ownership_keeps(3))
  next
    case EscrowRenounceOwnership
    with Call assms show ?thesis by (auto dest: ownership_keeps(4))
  qed
qed

lemma exec_keeps: "keeps (exec E d)"
proof (induction d)
  case 0
  show ?case by (simp add: keeps_def)
next
  case (Suc d)
  then have "civil (outside E (exec E d))" by (rule civil_outside)
  then show ?case unfolding keeps_def by (auto dest: dispatch_keeps)
qed

lemma exec_wf: "wf w \<Longrightarrow> exec E d c w = Inr w' \<Longrightarrow> wf w'"
  using exec_keeps [of E d] by (auto simp: keeps_def)

lemma exec_advances: "wf w \<Longrightarrow> exec E d c w = Inr w' \<Longrightarrow> advances w w'"
  using exec_keeps [of E d] by (auto simp: keeps_def)

lemma civil_exec: "civil (outside E (exec E d))"
  by (rule civil_outside) (rule exec_keeps)

lemma steps_keeps: "steps w w' \<Longrightarrow> wf w \<Longrightarrow> wf w' \<and> advances w w'"
proof (induction rule: steps.induct)
  case (steps_refl w)
  then show ?case by simp
next
  case (steps_call w w' E d c w'')
  then have a: "wf w'" "advances w w'" by simp_all
  from a(1) steps_call.hyps(2) have "wf w''" "advances w' w''"
    by (rule exec_wf, rule exec_advances)
  with a show ?case by (auto intro: advances_trans)
qed

lemma wf_deployed: "wf (deployed a)"
  by (simp add: wf_def deployed_def mints_def)

lemma reachable_wf: "reachable w \<Longrightarrow> wf w"
  unfolding reachable_def using steps_keeps wf_deployed by blast

lemma reachable_not_entered: "reachable w \<Longrightarrow> \<not> entered w"
proof -
  assume "reachable w"
  then obtain a where "steps (deployed a) w" by (auto simp: reachable_def)
  then have "advances (deployed a) w" using steps_keeps wf_deployed by blast
  then show ?thesis by (simp add: advances_def deployed_def)
qed

subsection \<open>The loop of createProject\<close>

lemma pushMilestones_Inr:
  assumes "length amts = length descs"
    and "\<forall>a\<in>set (drop i amts). 0 < a"
    and "tot + sum_list (drop i amts) \<le> uint256_max"
  shows "pushMilestones amts descs i ms tot =
           Inr (ms @ pendingMilestones (drop i amts) (drop i descs), tot + sum_list (drop i amts))"
  using assms
proof (induction amts descs i ms tot rule: pushMilestones.induct)
  case (1 amts descs i ms tot)
  show ?case
  proof (cases "i < length amts")
    case False
    then show ?thesis using "1.prems"(1)
      by (simp add: pushMilestones.simps pendingMilestones_def)
  next
    case True
    then have d: "drop i amts = amts ! i # drop (Suc i) amts"
      "drop i descs = descs ! i # drop (Suc i) descs"
      using "1.prems"(1) by (simp_all add: Cons_nth_drop_Suc)
    have pos: "0 < amts ! i" using "1.prems"(2) d by simp
    have le: "\<not> uint256_max < tot + amts ! i" using "1.prems"(3) d by simp
    have "pushMilestones amts descs (Suc i)
            (ms @ [\<lparr>description = descs ! i, amount = amts ! i, state = Pending\<rparr>]) (tot + amts ! i)
          = Inr ((ms @ [\<lparr>description = descs ! i, amount = amts ! i, state = Pending\<rparr>])
                   @ pendingMilestones (drop (Suc i) amts) (drop (Suc i) descs),
                 (tot + amts ! i) + sum_list (drop (Suc i) amts))"
      using True pos le "1.prems" d
      by (intro "1.IH") (simp_all add: add.assoc)
    then show ?thesis
      using True pos le "1.prems"(1) d
      by (subst pushMilestones.simps) (simp add: pendingMilestones_def add.assoc)
  qed
qed

lemma pushMilestones_Inl:
  assumes "(\<exists>a\<in>set (drop i amts). a = 0) \<or> uint256_max < tot + sum_list (drop i amts)"
    and "tot \<le> uint256_max"
  shows "isl (pushMilestones amts descs i ms tot)"
  using assms
proof (induction amts descs i ms tot rule: pushMilestones.induct)
  case (1 amts descs i ms tot)
  show ?case
  proof (cases "i < length amts")
    case False
    then show ?thesis using "1.prems" by simp
  next
    case True
    then have d: "drop i amts = amts ! i # drop (Suc i) amts"
      by (simp add: Cons_nth_drop_Suc)
    show ?thesis
    proof (cases "0 < amts ! i \<and> i < length descs \<and> \<not> uint256_max < tot + amts ! i")
      case False
      then show ?thesis using True by (subst pushMilestones.simps) auto
    next
      case ok: True
      have "isl (pushMilestones amts descs (Suc i)
            (ms @ [\<lparr>description = descs ! i, amount = amts ! i, state = Pending\<rparr>]) (tot + amts ! i))"
        using True ok "1.prems" d by (intro "1.IH") (auto simp: add.assoc)
      then show ?thesis using True ok by (subst pushMilestones.simps) simp
    qed
  qed
qed

subsection \<open>The example states are reachable\<close>

lemma reachable_deployed: "reachable (deployed a)"
  unfolding reachable_def by (blast intro: steps_refl)

lemma reachable_call: "reachable w \<Longrightarrow> exec E d c w = Inr w' \<Longrightarrow> reachable w'"
  unfolding reachable_def by (blast intro: steps_call)

lemma createProject_Inr:
  assumes "wf w" and "ngo \<noteq> address0" and "length amts = length descs" and "amts \<noteq> []"
    and "\<forall>a\<in>set amts. 0 < a" and "sum_list amts \<le> uint256_max"
    and "projectCounter w < uint256_max"
  shows "createProject sender ngo amts descs w =
     Inr (emit (ProjectCreated (projectCounter w) ngo (sum_list amts))
       (w\<lparr>projects := (projects w)
             (projectCounter w := emptyProject
                \<lparr>projectId := projectCounter w, creator := ngo,
                 milestones := pendingMilestones amts descs, totalAmount := sum_list amts\<rparr>),
          projectCounter := projectCounter w + 1\<rparr>))"
proof -
  have e: "projects w (projectCounter w) = emptyProject"
    using assms(1) by (simp add: wf_def)
  have "pushMilestones amts descs 0 [] 0 = Inr ([] @ pendingMilestones (drop 0 amts) (drop 0 descs), 0 + sum_list (drop 0 amts))"
    using assms(3,5,6) by (intro pushMilestones_Inr) simp_all
  moreover have "0 < length descs" using assms(3,4) by (cases amts) auto
  ultimately show ?thesis
    using assms(2,3,7) by (simp add: createProject_def e emptyProject_def Let_def)
qed

lemma createProject_Inl:
  assumes "ngo = address0 \<or> length amts \<noteq> length descs \<or> amts = []
           \<or> (\<exists>a\<in>set amts. a = 0) \<or> uint256_max < sum_list amts"
  shows "isl (createProject sender ngo amts descs w)"
proof (cases "ngo = address0 \<or> length amts \<noteq> length descs \<or> amts = []")
  case True
  then show ?thesis by (auto simp: createProject_def)
next
  case False
  with assms have "(\<exists>a\<in>set (drop 0 amts). a = 0) \<or> uint256_max < 0 + sum_list (drop 0 amts)"
    by simp
  then have "isl (pushMilestones amts descs 0 (milestones (projects w (projectCounter w))) 0)"
    by (rule pushMilestones_Inl) simp
  then show ?thesis
    by (auto simp: createProject_def Let_def isl_def)
qed

lemma transact_Inl: "isl (exec E d c w) \<Longrightarrow> snd (transact E d c w) = w"
  by (auto simp: transact_def isl_def)

lemma exec_handed:
  "exec plain (Suc 0) (Call 0 (TokenTransferOwnership ProjectEscrow)) (deployed 0)
     = Inr ((deployed 0)\<lparr>tokenOwner := ProjectEscrow\<rparr>)"
  by (simp add: tokenTransferOwnership_def onlyOwner_def deployed_def)

lemma exec_created:
  "exec plain (Suc 0) (Call 1 (CreateProject (Account 2) [3, 2] [''a'', ''b'']))
     ((deployed 0)\<lparr>tokenOwner := ProjectEscrow\<rparr>) = Inr created"
  by (simp add: createProject_def deployed_def created_def emptyProject_def uint256_max_def
      pushMilestones.simps emit_def)

lemma exec_funded:
  "exec plain (Suc 0) (Call 3 (Donate 0 5)) created = Inr funded"
  by (simp add: donate_def nonReentrant_def created_def funded_def emit_def)

lemma reachable_created: "reachable created"
  using reachable_call [OF reachable_call [OF reachable_deployed exec_handed] exec_created] .

lemma reachable_funded: "reachable funded"
  using reachable_call [OF reachable_created exec_funded] .

subsection \<open>Reentrant calls\<close>

lemma guarded_rejected: "entered w \<Longrightarrow> guarded c \<Longrightarrow> isl (exec E d c w)"
proof (cases d)
  case 0
  then show ?thesis by simp
next
  case (Suc d')
  assume "entered w" "guarded c"
  then show ?thesis unfolding Suc
    by (cases c rule: guarded.cases)
       (simp_all add: donate_def verifyMilestone_def onlyOwner_def nonReentrant_def)
qed

lemma attempt_keeps:
  "wf w \<Longrightarrow> wf (attempt (exec E d) c w) \<and> advances w (attempt (exec E d) c w)"
  using exec_keeps [of E d] by (auto simp: attempt_def keeps_def split: sum.splits)

lemma fold_attempt_locked:
  assumes IH: "\<And>c w. wf w \<Longrightarrow> entered w \<Longrightarrow> exec E d c w = exec E' d c w"
  shows "wf w \<Longrightarrow> entered w \<Longrightarrow>
     fold (attempt (exec E d)) cs w = fold (attempt (exec E' d)) (filter (\<lambda>c. \<not> guarded c) cs) w"
proof (induction cs arbitrary: w)
  case Nil
  then show ?case by simp
next
  case (Cons c cs)
  show ?case
  proof (cases "guarded c")
    case True
    then have "attempt (exec E d) c w = w"
      using guarded_rejected [OF Cons.prems(2) True, of E d] by (auto simp: attempt_def isl_def)
    then show ?thesis using True Cons by simp
  next
    case False
    let ?w = "attempt (exec E d) c w"
    have eq: "attempt (exec E' d) c w = ?w"
      using IH [OF Cons.prems] by (simp add: attempt_def)
    have "wf ?w" "advances w ?w" using attempt_keeps [OF Cons.prems(1)] by simp_all
    then have "wf ?w" "entered ?w" using Cons.prems(2) by (simp_all add: advances_def)
    from Cons.IH [OF this] show ?thesis using False eq by simp
  qed
qed

lemma agree_locked_outside:
  assumes "\<And>c w. wf w \<Longrightarrow> entered w \<Longrightarrow> exec E d c w = exec (without_reentry E) d c w"
  shows "agree_locked (outside E (exec E d)) (outside (without_reentry E) (exec (without_reentry E) d))"
proof -
  have "callee (exec E d) hooks a v = callee (exec (without_reentry E) d) (\<lambda>n. unguarded_hook (hooks n)) a v"
    if "wf v" "entered v" for hooks a v
    using fold_attempt_locked [OF assms that]
    by (cases a) (simp_all add: callee_def run_hook_def unguarded_hook_def)
  then show ?thesis
    by (simp add: agree_locked_def outside_def without_reentry_def)
qed

lemma safeMint_agree:
  assumes "agree_locked X X'" and "wf w" and "entered w"
  shows "safeMint X s to t uri w = safeMint X' s to t uri w"
proof (cases "s = tokenOwner w \<and> to \<noteq> address0 \<and> owners w t = address0")
  case False
  then show ?thesis by (auto simp: safeMint_def onlyOwner_def)
next
  case True
  then have "wf (mint to t w)" using assms(2) by (intro wf_mint) simp_all
  then have "ack X to (mint to t w) = ack X' to (mint to t w)"
    using assms(1,3) by (simp add: agree_locked_def)
  then show ?thesis using True by (simp add: safeMint_def onlyOwner_def mint_def Let_def)
qed

lemma verifyMilestone_agree:
  assumes "agree_locked X X'" and "civil X" and "wf w"
  shows "verifyMilestone X s pid idx w = verifyMilestone X' s pid idx w"
proof (cases "s = escrowOwner w \<and> \<not> entered w \<and> creator (projects w pid) \<noteq> address0
    \<and> idx < length (milestones (projects w pid)) \<and> state (milestones (projects w pid) ! idx) = Pending
    \<and> \<not> escrowBalance w < amount (milestones (projects w pid) ! idx)")
  case False
  then show ?thesis by (auto simp: verifyMilestone_unfold)
next
  case True
  then have lt: "pid < projectCounter w" using assms(3) by (intro exists_below_counter) simp_all
  have wfv: "wf (verifying pid idx w)" using assms(3) lt by (rule wf_verifying)
  then have p: "pay X (creator (projects w pid)) (verifying pid idx w)
        = pay X' (creator (projects w pid)) (verifying pid idx w)"
    using assms(1) by (simp add: agree_locked_def)
  show ?thesis
  proof (cases "pay X (creator (projects w pid)) (verifying pid idx w)")
    case None
    moreover have "pay X' (creator (projects w pid)) (verifying pid idx w) = None"
      using p None by simp
    ultimately show ?thesis using True by (simp add: verifyMilestone_unfold)
  next
    case (Some w1)
    note L = civil_locked [OF assms(2) wfv verifying_fields(4) disjI1 [OF Some]]
    have lt1: "pid < projectCounter w1" using lt L(3) by simp
    have "wf (completed pid (settled pid idx w1))"
      using L(1) lt1 by (intro wf_completed wf_settled) simp_all
    moreover have "entered (completed pid (settled pid idx w1))" using L(2) by simp
    ultimately have sm: "safeMint X ProjectEscrow (donor (projects w1 pid)) pid (constructTokenURI pid)
                (completed pid (settled pid idx w1))
       = safeMint X' ProjectEscrow (donor (projects w1 pid)) pid (constructTokenURI pid)
                (completed pid (settled pid idx w1))"
      using assms(1) by (intro safeMint_agree)
    have p': "pay X' (creator (projects w pid)) (verifying pid idx w) = Some w1"
      using p Some by simp
    show ?thesis using True by (simp add: verifyMilestone_unfold Some p' sm)
  qed
qed

lemma safeTransferFrom_agree:
  assumes "agree_locked X X'" and "wf w" and "entered w"
  shows "safeTransferFrom X s src to t w = safeTransferFrom X' s src to t w"
proof (cases "transferFrom s src to t w")
  case (Inl e)
  then show ?thesis by (simp add: safeTransferFrom_def)
next
  case (Inr w1)
  with assms(2) have "wf w1 \<and> advances w w1" by (rule transferFrom_keeps)
  then have "wf w1" "entered w1" using assms(3) by (simp_all add: advances_def)
  then have "ack X to w1 = ack X' to w1" using assms(1) by (simp add: agree_locked_def)
  then show ?thesis using Inr by (simp add: safeTransferFrom_def)
qed

lemma dispatch_agree_locked:
  assumes "agree_locked X X'" and "civil X" and "wf w" and "entered w \<or> guarded c"
  shows "dispatch X c w = dispatch X' c w"
proof (cases c)
  case (Call n a)
  show ?thesis
  proof (cases a)
    case (VerifyMilestone pid idx)
    with Call assms(1-3) show ?thesis by (simp add: verifyMilestone_agree)
  next
    case (SafeMint to t uri)
    with Call assms show ?thesis by (simp add: safeMint_agree)
  next
    case (SafeTransferFrom src to t)
    with Call assms show ?thesis by (simp add: safeTransferFrom_agree)
  qed (simp_all add: Call)
qed

lemma exec_without_reentry:
  "wf w \<Longrightarrow> entered w \<or> guarded c \<Longrightarrow> exec E d c w = exec (without_reentry E) d c w"
proof (induction d arbitrary: c w)
  case 0
  show ?case by simp
next
  case (Suc d)
  have "agree_locked (outside E (exec E d)) (outside (without_reentry E) (exec (without_reentry E) d))"
    using Suc.IH by (intro agree_locked_outside) simp
  then show ?case
    using Suc.prems civil_exec [of E d] by (simp add: dispatch_agree_locked)
qed

lemma transact_entered:
  assumes "wf w"
  shows "entered (snd (transact E d c w)) = entered w"
proof (cases "exec E d c w")
  case (Inl e)
  then show ?thesis by (simp add: transact_def)
next
  case (Inr w')
  with assms have "advances w w'" by (intro exec_advances)
  then show ?thesis using Inr by (simp add: transact_def advances_def)
qed

subsection \<open>When verifyMilestone returns\<close>

lemma wf_funded: "wf funded"
  using reachable_funded by (rule reachable_wf)

lemma wf_escrowOwner_update [simp]: "wf (w\<lparr>escrowOwner := a\<rparr>) = wf w"
  by (simp add: wf_def)

lemma wf_entered_update [simp]: "wf (w\<lparr>entered := b\<rparr>) = wf w"
  by (simp add: wf_def)

lemma callee_Some: "\<not> refuses hooks a \<Longrightarrow> \<exists>w'. callee ex hooks a w = Some w'"
  using callee_None_iff [of ex hooks a w] by (cases "callee ex hooks a w") auto

lemma verifyMilestone_returns:
  fixes w :: world and pid idx :: nat and E :: env
  defines "p \<equiv> projects w pid"
  assumes wf: "wf w"
    and pre: "Account n = escrowOwner w" "\<not> entered w" "creator p \<noteq> address0"
      "idx < length (milestones p)" "state (milestones p ! idx) = Pending"
      "amount (milestones p ! idx) \<le> escrowBalance w"
      "\<not> refuses (onReceive E) (creator p)"
    and fin: "Suc idx = length (milestones p) \<Longrightarrow>
      tokenOwner w = ProjectEscrow \<and> donor p \<noteq> address0 \<and> owners w pid = address0
      \<and> \<not> refuses (onERC721Received E) (donor p)"
  shows "\<exists>w'. exec E (Suc d) (Call n (VerifyMilestone pid idx)) w = Inr w'"
proof -
  let ?X = "outside E (exec E d)"
  let ?v = "verifying pid idx w"
  have X: "civil ?X" by (rule civil_exec)
  have lt: "pid < projectCounter w"
    using wf pre(3) unfolding p_def by (rule exists_below_counter)
  have wfv: "wf ?v" using wf lt by (rule wf_verifying)
  obtain w1 where pay: "pay ?X (creator p) ?v = Some w1"
    using callee_Some [OF pre(7)] by (auto simp: outside_def)
  note L = civil_locked [OF X wfv verifying_fields(4) disjI1 [OF pay]]
  have p1: "projects w1 pid = p\<lparr>milestones := (milestones p)[idx := (milestones p ! idx)\<lparr>state := Verified\<rparr>]\<rparr>"
    using L(4) [of pid] lt by (simp add: p_def)
  show ?thesis
  proof (cases "Suc idx = length (milestones p)")
    case False
    then show ?thesis
      using pre pay p1 unfolding p_def by (simp add: verifyMilestone_unfold)
  next
    case True
    note f = fin [OF True]
    let ?c = "completed pid (settled pid idx w1)"
    have t1: "tokenOwner w1 = ProjectEscrow" using L(8) f by simp
    have o1: "owners w1 pid = address0" using L(9) f by simp
    obtain w2 where ack: "ack ?X (donor p) (mint (donor p) pid ?c) = Some w2"
      using callee_Some [of "onERC721Received E" "donor p"] f by (auto simp: outside_def)
    have "safeMint ?X ProjectEscrow (donor p) pid (constructTokenURI pid) ?c
          = Inr (w2\<lparr>tokenURIs := (tokenURIs w2)(pid := constructTokenURI pid)\<rparr>)"
      using t1 o1 f ack by (simp add: safeMint_def onlyOwner_def mint_def Let_def)
    then show ?thesis
      using pre pay p1 True unfolding p_def by (simp add: verifyMilestone_unfold)
  qed
qed

lemma exec_second:
  "exec plain (Suc 0) (Call 4 (CreateProject (Account 4) [3, 1] [''c'', ''d''])) funded = Inr second"
  by (simp add: createProject_def funded_def second_def emptyProject_def uint256_max_def
      pushMilestones.simps emit_def)

lemma reachable_second: "reachable second"
  using reachable_call [OF reachable_funded exec_second] .

lemma wf_second: "wf second"
  using reachable_second by (rule reachable_wf)

subsection \<open>Milestones and certificates along a run\<close>

lemma milestones_below_counter:
  "wf w \<Longrightarrow> i < length (milestones (projects w q)) \<Longrightarrow> q < projectCounter w"
  by (rule ccontr) (simp add: wf_def emptyProject_def not_less)

lemma rank_Paid: "2 \<le> rank s \<Longrightarrow> s = Paid"
  by (cases s) simp_all

lemma not_Pending_rejected:
  "state (milestones (projects w pid) ! idx) \<noteq> Pending \<Longrightarrow>
     isl (exec E d (Call n (VerifyMilestone pid idx)) w)"
  by (cases d) (simp_all add: verifyMilestone_unfold)

lemma steps_milestone:
  assumes "wf w" and "steps w w'" and "i < length (milestones (projects w q))"
  shows "i < length (milestones (projects w' q))"
    and "rank (state (milestones (projects w q) ! i)) \<le> rank (state (milestones (projects w' q) ! i))"
proof -
  have "advances w w'" using steps_keeps [OF assms(2,1)] by simp
  moreover have "q < projectCounter w" using assms(1,3) by (rule milestones_below_counter)
  ultimately have "project_advances (projects w q) (projects w' q)" by (simp add: advances_def)
  then show "i < length (milestones (projects w' q))"
    and "rank (state (milestones (projects w q) ! i)) \<le> rank (state (milestones (projects w' q) ! i))"
    using assms(3) by (simp_all add: project_advances_def)
qed

lemma funded_verify_first:
  "\<exists>w1. exec plain (Suc 0) (Call 0 (VerifyMilestone 0 0)) funded = Inr w1"
proof (rule verifyMilestone_returns [OF wf_funded])
  show "Account 0 = escrowOwner funded" by (simp add: funded_def)
  show "\<not> entered funded" by (simp add: funded_def)
  show "creator (projects funded 0) \<noteq> address0" by (simp add: funded_def)
  show "0 < length (milestones (projects funded 0))" by (simp add: funded_def)
  show "state (milestones (projects funded 0) ! 0) = Pending" by (simp add: funded_def)
  show "amount (milestones (projects funded 0) ! 0) \<le> escrowBalance funded"
    by (simp add: funded_def)
  show "\<not> refuses (onReceive plain) (creator (projects funded 0))"
    by (simp add: funded_def plain_def refuses_def)
  show "tokenOwner funded = ProjectEscrow \<and> donor (projects funded 0) \<noteq> address0
      \<and> owners funded 0 = address0 \<and> \<not> refuses (onERC721Received plain) (donor (projects funded 0))"
    by (simp add: funded_def plain_def refuses_def)
qed














subsection \<open>Claims\<close>

text \<open>
  C1. When the transfer to the creator in the release step fails (the escrow holds less
  than the milestone's amount, or the creator does not take the payment), a call of
  verifyMilestone that has passed every check reverts with the transfer's error, and the
  transaction leaves the state as it was: the milestone is still Pending, not Verified
  and not Paid, and the log has no new event.
\<close>

theorem verifyMilestone_transfer_failure_aborts:
  assumes "Account n = escrowOwner w" and "\<not> entered w"
    and "creator (projects w pid) \<noteq> address0"
    and "idx < length (milestones (projects w pid))"
    and "state (milestones (projects w pid) ! idx) = Pending"
    and "escrowBalance w < amount (milestones (projects w pid) ! idx)
         \<or> refuses (onReceive E) (creator (projects w pid))"
  shows "transact E (Suc d) (Call n (VerifyMilestone pid idx)) w
           = (Some (Revert ''Fund transfer failed.''), w)
       \<and> state (milestones (projects
             (snd (transact E (Suc d) (Call n (VerifyMilestone pid idx)) w)) pid) ! idx) = Pending
       \<and> events (snd (transact E (Suc d) (Call n (VerifyMilestone pid idx)) w)) = events w"
proof -
  let ?X = "outside E (exec E d)"
  let ?w3 = "emit (MilestoneVerified pid idx)
               (setMilestoneState pid idx Verified (w\<lparr>entered := True\<rparr>))"
  have "call_value ?X (creator (projects ?w3 pid))
          (amount (milestones (projects ?w3 pid) ! idx)) ?w3 = None"
    using assms by (simp add: call_value_None_iff)
  then have "releaseFunds ?X pid idx ?w3 = Inl (Revert ''Fund transfer failed.'')"
    using assms by (simp add: releaseFunds_def)
  then have "verifyMilestone ?X (Account n) pid idx w = Inl (Revert ''Fund transfer failed.'')"
    using assms by (simp add: verifyMilestone_def onlyOwner_def nonReentrant_def Let_def)
  then show ?thesis using assms(5) by (simp add: transact_def)
qed

theorem verifyMilestone_transfer_failure_aborts_witness:
  "transact refusing (Suc 0) (Call 0 (VerifyMilestone 0 0)) funded
     = (Some (Revert ''Fund transfer failed.''), funded)
   \<and> state (milestones (projects funded 0) ! 0) = Pending"
  using verifyMilestone_transfer_failure_aborts [of 0 funded 0 0 refusing 0]
  by (simp add: funded_def refusing_def refuses_def)




text \<open>
  C3. In a reachable state, a donate transaction to an existing project succeeds if and
  only if the attached value equals the project's totalAmount and no donor is recorded.
  On success the caller is the donor, fundsRaised is the value, and the escrow holds the
  value more; otherwise (a partial or excess value, or a project already funded) the
  call is rejected and the state, donor and fundsRaised included, is unchanged.
\<close>

theorem donate_all_or_nothing:
  fixes w :: world and E :: env and pid d n v :: nat
  defines "p \<equiv> projects w pid"
  defines "r \<equiv> transact E (Suc d) (Call n (Donate pid v)) w"
  assumes "reachable w" and "creator (projects w pid) \<noteq> address0"
  shows "(fst r = None \<longleftrightarrow> v = totalAmount p \<and> donor p = address0)
       \<and> (v = totalAmount p \<and> donor p = address0 \<longrightarrow>
            donor (projects (snd r) pid) = Account n \<and> fundsRaised (projects (snd r) pid) = v
            \<and> escrowBalance (snd r) = escrowBalance w + v)
       \<and> (v \<noteq> totalAmount p \<or> donor p \<noteq> address0 \<longrightarrow>
            snd r = w \<and> donor (projects (snd r) pid) = donor p
            \<and> fundsRaised (projects (snd r) pid) = fundsRaised p)"
proof -
  have "\<not> entered w" using assms(3) by (rule reachable_not_entered)
  then show ?thesis
    using assms(4) unfolding p_def r_def
    by (auto simp: transact_def donate_def nonReentrant_def Let_def)
qed

theorem donate_all_or_nothing_witness:
  "fst (transact plain (Suc 0) (Call 3 (Donate 0 5)) created) = None
   \<and> donor (projects (snd (transact plain (Suc 0) (Call 3 (Donate 0 5)) created)) 0) = Account 3
   \<and> fundsRaised (projects (snd (transact plain (Suc 0) (Call 3 (Donate 0 5)) created)) 0) = 5
   \<and> snd (transact plain (Suc 0) (Call 3 (Donate 0 4)) created) = created
   \<and> snd (transact plain (Suc 0) (Call 3 (Donate 0 6)) created) = created
   \<and> snd (transact plain (Suc 0) (Call 4 (Donate 0 5)) funded) = funded"
  using donate_all_or_nothing [OF reachable_created, of 0 plain 0 3 5]
    donate_all_or_nothing [OF reachable_created, of 0 plain 0 3 4]
    donate_all_or_nothing [OF reachable_created, of 0 plain 0 3 6]
    donate_all_or_nothing [OF reachable_funded, of 0 plain 0 4 5]
  by (simp add: created_def funded_def)

text \<open>
  C4. verifyMilestone looks at no milestone but the one it is called for. In a state that
  satisfies the invariant, with the guard free and the token owned by the escrow, an
  owner's call on a Pending milestone of an existing project returns when the escrow holds the amount
  and the creator takes it (and, for the last index, when the certificate can be minted
  to the donor), whatever the states of the other milestones are. It marks the milestone
  Paid and leaves the others as they were. For the last index, \<open>length - 1\<close>, it sets
  isComplete and mints the certificate of the project to the donor (the mint is in the
  log, and it is the certificate's only one), also when earlier milestones are still
  Pending; for every other index it does neither: no certificate is minted.
\<close>

theorem verifyMilestone_any_order:
  fixes w :: world and pid idx :: nat and E :: env
  defines "p \<equiv> projects w pid"
  assumes "wf w" and "tokenOwner w = ProjectEscrow"
    and "Account n = escrowOwner w" and "\<not> entered w" and "creator p \<noteq> address0"
    and "idx < length (milestones p)" and "state (milestones p ! idx) = Pending"
    and "amount (milestones p ! idx) \<le> escrowBalance w"
    and "\<not> refuses (onReceive E) (creator p)"
    and "idx = length (milestones p) - 1 \<longrightarrow>
           donor p \<noteq> address0 \<and> owners w pid = address0
           \<and> \<not> refuses (onERC721Received E) (donor p)"
  shows "\<exists>w'. exec E (Suc d) (Call n (VerifyMilestone pid idx)) w = Inr w'
       \<and> state (milestones (projects w' pid) ! idx) = Paid
       \<and> (\<forall>j. j < length (milestones p) \<longrightarrow> j \<noteq> idx \<longrightarrow>
             state (milestones (projects w' pid) ! j) = state (milestones p ! j))
       \<and> (idx = length (milestones p) - 1 \<longrightarrow>
             isComplete (projects w' pid)
             \<and> Transfer address0 (donor p) pid \<in> set (events w')
             \<and> mints (events w) pid = 0 \<and> mints (events w') pid = 1)
       \<and> (idx \<noteq> length (milestones p) - 1 \<longrightarrow>
             isComplete (projects w' pid) = isComplete p
             \<and> (\<forall>t. mints (events w') t = mints (events w) t))"
proof -
  have last: "idx = length (milestones p) - 1 \<longleftrightarrow> Suc idx = length (milestones p)"
    using assms(7) by auto
  have "\<exists>w'. exec E (Suc d) (Call n (VerifyMilestone pid idx)) w = Inr w'"
    using assms(2,4-10) assms(3) assms(11) unfolding p_def last [unfolded p_def]
    by (intro verifyMilestone_returns) simp_all
  then obtain w' where r: "verifyMilestone (outside E (exec E d)) (Account n) pid idx w = Inr w'"
    by auto
  note V = verifyMilestone_Inr [OF assms(2) civil_exec r, folded p_def]
  have "state (milestones (projects w' pid) ! idx) = Paid"
    using V(4) by (simp add: V(11))
  moreover have "\<forall>j. j < length (milestones p) \<longrightarrow> j \<noteq> idx \<longrightarrow>
             state (milestones (projects w' pid) ! j) = state (milestones p ! j)"
    by (simp add: V(11))
  moreover have "mints (events w') pid = 1" if "Suc idx = length (milestones p)"
    using V(8) V(17) [OF that] by (simp add: wf_def)
  moreover have "mints (events w) pid = 0" if "Suc idx = length (milestones p)"
    using assms(2) V(17) [OF that] by (simp add: wf_def)
  moreover have "Transfer address0 (donor p) pid \<in> set (events w')"
    if "Suc idx = length (milestones p)"
    using V(17) [OF that] by simp
  moreover have "mints (events w') t = mints (events w) t"
    if "Suc idx \<noteq> length (milestones p)" for t
  proof -
    have "owners w' t = address0 \<longleftrightarrow> owners w t = address0"
      using V(15) [of t] V(19) [OF that assms(3)] by blast
    then show ?thesis using assms(2) V(8) by (simp add: wf_def)
  qed
  moreover have "isComplete (projects w' pid) = (Suc idx = length (milestones p) \<or> isComplete p)"
    by (simp add: V(11))
  ultimately show ?thesis
    using r unfolding last by (intro exI [of _ w']) auto
qed

theorem verifyMilestone_any_order_witness:
  "\<exists>w'. exec plain (Suc 0) (Call 0 (VerifyMilestone 0 1)) funded = Inr w'
     \<and> map state (milestones (projects w' 0)) = [Pending, Paid]
     \<and> isComplete (projects w' 0) \<and> Transfer address0 (Account 3) 0 \<in> set (events w')
     \<and> mints (events w') 0 = 1"
proof -
  have "\<exists>w'. exec plain (Suc 0) (Call 0 (VerifyMilestone 0 1)) funded = Inr w'
       \<and> state (milestones (projects w' 0) ! 1) = Paid
       \<and> (\<forall>j. j < length (milestones (projects funded 0)) \<longrightarrow> j \<noteq> 1 \<longrightarrow>
             state (milestones (projects w' 0) ! j) = state (milestones (projects funded 0) ! j))
       \<and> (1 = length (milestones (projects funded 0)) - 1 \<longrightarrow>
             isComplete (projects w' 0)
             \<and> Transfer address0 (donor (projects funded 0)) 0 \<in> set (events w')
             \<and> mints (events funded) 0 = 0 \<and> mints (events w') 0 = 1)
       \<and> (1 \<noteq> length (milestones (projects funded 0)) - 1 \<longrightarrow>
             isComplete (projects w' 0) = isComplete (projects funded 0)
             \<and> (\<forall>t. mints (events w') t = mints (events funded) t))"
    using wf_funded
    by (intro verifyMilestone_any_order) (simp_all add: funded_def plain_def refuses_def)
  then obtain w' where e: "exec plain (Suc 0) (Call 0 (VerifyMilestone 0 1)) funded = Inr w'"
    and s: "state (milestones (projects w' 0) ! 1) = Paid"
      "state (milestones (projects w' 0) ! 0) = Pending"
    and c: "isComplete (projects w' 0)" "Transfer address0 (Account 3) 0 \<in> set (events w')"
      "mints (events w') 0 = 1"
    by (auto simp: funded_def)
  have "advances funded w'" using wf_funded e by (rule exec_advances)
  then have "length (milestones (projects w' 0)) = 2"
    by (simp add: advances_def project_advances_def funded_def)
  then have "map state (milestones (projects w' 0)) = [Pending, Paid]"
    using s by (auto simp: list_eq_iff_nth_eq less_Suc_eq numeral_2_eq_2)
  with e c show ?thesis by (intro exI [of _ w']) simp
qed

text \<open>
  C5. From a reachable state on, whatever calls follow, no milestone's state moves back in
  the order Pending, Verified, Paid. A call of verifyMilestone returns only for a Pending
  milestone and leaves it Paid; after that the milestone stays Paid, and every later call
  of verifyMilestone for it is rejected, whoever makes it.
\<close>

theorem milestone_state_forward:
  assumes "reachable w"
  shows "(steps w w' \<and> i < length (milestones (projects w q)) \<longrightarrow>
            i < length (milestones (projects w' q))
            \<and> rank (state (milestones (projects w q) ! i))
                \<le> rank (state (milestones (projects w' q) ! i)))
       \<and> (exec E d (Call n (VerifyMilestone pid idx)) w = Inr w1 \<longrightarrow>
            state (milestones (projects w pid) ! idx) = Pending
            \<and> state (milestones (projects w1 pid) ! idx) = Paid
            \<and> (\<forall>w2. steps w1 w2 \<longrightarrow>
                  state (milestones (projects w2 pid) ! idx) = Paid
                  \<and> isl (exec E2 d2 (Call n2 (VerifyMilestone pid idx)) w2)))"
proof (intro conjI impI)
  have wf: "wf w" using assms by (rule reachable_wf)
  {
    assume a: "steps w w' \<and> i < length (milestones (projects w q))"
    then show "i < length (milestones (projects w' q))"
      and "rank (state (milestones (projects w q) ! i)) \<le> rank (state (milestones (projects w' q) ! i))"
      using steps_milestone [OF wf, of w' i q] by simp_all
  }
  assume e: "exec E d (Call n (VerifyMilestone pid idx)) w = Inr w1"
  then obtain d' where d: "d = Suc d'" by (cases d) simp_all
  from e have r: "verifyMilestone (outside E (exec E d')) (Account n) pid idx w = Inr w1"
    by (simp add: d)
  note V = verifyMilestone_Inr [OF wf civil_exec r]
  show "state (milestones (projects w pid) ! idx) = Pending" by (fact V(5))
  show p1: "state (milestones (projects w1 pid) ! idx) = Paid"
    using V(4) by (simp add: V(11))
  have l1: "idx < length (milestones (projects w1 pid))"
    using V(4) by (simp add: V(11))
  show "\<forall>w2. steps w1 w2 \<longrightarrow>
          state (milestones (projects w2 pid) ! idx) = Paid
          \<and> isl (exec E2 d2 (Call n2 (VerifyMilestone pid idx)) w2)"
  proof (intro allI impI)
    fix w2
    assume s: "steps w1 w2"
    have "2 \<le> rank (state (milestones (projects w2 pid) ! idx))"
      using steps_milestone(2) [OF V(8) s l1] p1 by simp
    then have "state (milestones (projects w2 pid) ! idx) = Paid" by (rule rank_Paid)
    then show "state (milestones (projects w2 pid) ! idx) = Paid
          \<and> isl (exec E2 d2 (Call n2 (VerifyMilestone pid idx)) w2)"
      by (simp add: not_Pending_rejected)
  qed
qed

theorem milestone_state_forward_witness:
  "\<exists>w1. exec plain (Suc 0) (Call 0 (VerifyMilestone 0 0)) funded = Inr w1
     \<and> state (milestones (projects funded 0) ! 0) = Pending
     \<and> state (milestones (projects w1 0) ! 0) = Paid
     \<and> isl (exec plain (Suc 0) (Call 0 (VerifyMilestone 0 0)) w1)"
proof -
  from funded_verify_first
  obtain w1 where e: "exec plain (Suc 0) (Call 0 (VerifyMilestone 0 0)) funded = Inr w1" ..
  have "exec plain (Suc 0) (Call 0 (VerifyMilestone 0 0)) funded = Inr w1 \<longrightarrow>
            state (milestones (projects funded 0) ! 0) = Pending
            \<and> state (milestones (projects w1 0) ! 0) = Paid
            \<and> (\<forall>w2. steps w1 w2 \<longrightarrow>
                  state (milestones (projects w2 0) ! 0) = Paid
                  \<and> isl (exec plain (Suc 0) (Call 0 (VerifyMilestone 0 0)) w2))"
    using milestone_state_forward [OF reachable_funded, where E = plain and d = "Suc 0" and n = 0
        and pid = 0 and idx = 0 and ?w1.0 = w1 and ?E2.0 = plain and ?d2.0 = "Suc 0" and ?n2.0 = 0]
    by (rule conjunct2)
  then have "state (milestones (projects funded 0) ! 0) = Pending
            \<and> state (milestones (projects w1 0) ! 0) = Paid
            \<and> (\<forall>w2. steps w1 w2 \<longrightarrow>
                  state (milestones (projects w2 0) ! 0) = Paid
                  \<and> isl (exec plain (Suc 0) (Call 0 (VerifyMilestone 0 0)) w2))"
    using e by (rule mp)
  then show ?thesis using e steps_refl [of w1] by (intro exI [of _ w1]) simp
qed

text \<open>
  C6 (as amended). In a reachable state, for a non-null beneficiary, amount and
  description arrays of equal non-zero length and amounts that are all positive, whose
  sum fits in 256 bits, and a project counter below its maximum, createProject succeeds:
  the project is stored under the old counter, an id no project had, the counter is
  incremented, totalAmount is the exact sum of the amounts, and every milestone is
  Pending. A null beneficiary, arrays of different or zero length, an amount of zero or a
  sum that does not fit in 256 bits rejects the call, and the state is unchanged.
\<close>

theorem createProject_sums_milestones:
  assumes "reachable w"
  shows "(ngo \<noteq> address0 \<and> length amts = length descs \<and> amts \<noteq> [] \<and> (\<forall>a\<in>set amts. 0 < a)
          \<and> sum_list amts \<le> uint256_max \<and> projectCounter w < uint256_max \<longrightarrow>
          (\<exists>w'. createProject sender ngo amts descs w = Inr w'
             \<and> creator (projects w (projectCounter w)) = address0
             \<and> projectCounter w' = projectCounter w + 1
             \<and> projects w' (projectCounter w) =
                 emptyProject\<lparr>projectId := projectCounter w, creator := ngo,
                   milestones := pendingMilestones amts descs, totalAmount := sum_list amts\<rparr>
             \<and> totalAmount (projects w' (projectCounter w)) = sum_list amts
             \<and> (\<forall>q. q \<noteq> projectCounter w \<longrightarrow> projects w' q = projects w q)))
       \<and> (ngo = address0 \<or> length amts \<noteq> length descs \<or> amts = [] \<or> (\<exists>a\<in>set amts. a = 0)
          \<or> uint256_max < sum_list amts \<longrightarrow>
          isl (createProject sender ngo amts descs w)
          \<and> snd (transact E (Suc d) (Call n (CreateProject ngo amts descs)) w) = w)"
proof (intro conjI impI)
  assume a: "ngo \<noteq> address0 \<and> length amts = length descs \<and> amts \<noteq> [] \<and> (\<forall>a\<in>set amts. 0 < a)
          \<and> sum_list amts \<le> uint256_max \<and> projectCounter w < uint256_max"
  have wf: "wf w" using assms by (rule reachable_wf)
  have e: "creator (projects w (projectCounter w)) = address0"
    using wf by (simp add: wf_def emptyProject_def)
  from a wf have "createProject sender ngo amts descs w =
     Inr (emit (ProjectCreated (projectCounter w) ngo (sum_list amts))
       (w\<lparr>projects := (projects w)
             (projectCounter w := emptyProject
                \<lparr>projectId := projectCounter w, creator := ngo,
                 milestones := pendingMilestones amts descs, totalAmount := sum_list amts\<rparr>),
          projectCounter := projectCounter w + 1\<rparr>))"
    by (intro createProject_Inr) simp_all
  with e show "\<exists>w'. createProject sender ngo amts descs w = Inr w'
             \<and> creator (projects w (projectCounter w)) = address0
             \<and> projectCounter w' = projectCounter w + 1
             \<and> projects w' (projectCounter w) =
                 emptyProject\<lparr>projectId := projectCounter w, creator := ngo,
                   milestones := pendingMilestones amts descs, totalAmount := sum_list amts\<rparr>
             \<and> totalAmount (projects w' (projectCounter w)) = sum_list amts
             \<and> (\<forall>q. q \<noteq> projectCounter w \<longrightarrow> projects w' q = projects w q)"
    by simp
next
  assume b: "ngo = address0 \<or> length amts \<noteq> length descs \<or> amts = [] \<or> (\<exists>a\<in>set amts. a = 0)
          \<or> uint256_max < sum_list amts"
  then show "isl (createProject sender ngo amts descs w)" by (rule createProject_Inl)
  from b have "isl (createProject (Account n) ngo amts descs w)" by (rule createProject_Inl)
  then show "snd (transact E (Suc d) (Call n (CreateProject ngo amts descs)) w) = w"
    by (intro transact_Inl) simp
qed

theorem createProject_sums_milestones_witness:
  "(\<exists>w'. createProject (Account 1) (Account 2) [3, 2] [''a'', ''b''] (deployed 0) = Inr w'
      \<and> projectCounter w' = 1 \<and> totalAmount (projects w' 0) = 5
      \<and> map state (milestones (projects w' 0)) = [Pending, Pending])
   \<and> isl (createProject (Account 1) (Account 2) [3, 0] [''a'', ''b''] (deployed 0))"
  using createProject_sums_milestones [OF reachable_deployed, of "Account 2" "[3, 2]" "[''a'', ''b'']" 0 "Account 1" plain 0 1]
    createProject_sums_milestones [OF reachable_deployed, of "Account 2" "[3, 0]" "[''a'', ''b'']" 0 "Account 1" plain 0 1]
  by (auto simp: pendingMilestones_def deployed_def uint256_max_def)

text \<open>
  C6 as stated fails: the amounts \<open>2 ^ 255\<close> and \<open>2 ^ 255\<close> are positive, the arrays
  have the same non-zero length and the beneficiary is not null, but the checked
  \<open>+=\<close> of the loop overflows and the call panics.
\<close>

theorem createProject_overflow_counterexample:
  "Account 2 \<noteq> address0 \<and> length [2 ^ 255, 2 ^ 255 :: nat] = length [''a'', ''b'']
   \<and> list_all (\<lambda>a. 0 < a) [2 ^ 255, 2 ^ 255 :: nat]
   \<and> createProject (Account 1) (Account 2) [2 ^ 255, 2 ^ 255] [''a'', ''b''] (deployed 0)
       = Inl (Panic 17)"
  by (simp add: createProject_def deployed_def emptyProject_def uint256_max_def pushMilestones.simps)



text \<open>
  C8. A call of verifyMilestone by anyone but the owner of the escrow is rejected as
  unauthorised, and the transaction leaves the whole state, projects and milestones
  included, as it was.
\<close>

theorem verifyMilestone_only_owner:
  assumes "sender \<noteq> escrowOwner w"
  shows "verifyMilestone X sender pid idx w = Inl (OwnableUnauthorizedAccount sender)
       \<and> (sender = Account n \<longrightarrow>
            transact E (Suc d) (Call n (VerifyMilestone pid idx)) w
              = (Some (OwnableUnauthorizedAccount sender), w))"
  using assms by (simp add: verifyMilestone_def onlyOwner_def transact_def)

theorem verifyMilestone_only_owner_witness:
  "transact plain (Suc 0) (Call 7 (VerifyMilestone 0 0)) funded
     = (Some (OwnableUnauthorizedAccount (Account 7)), funded)"
  using verifyMilestone_only_owner [of "Account 7" funded "outside plain (exec plain 0)" 0 0 7 plain 0]
  by (simp add: funded_def)

text \<open>
  C9. In a state that satisfies the invariant (every reachable state does, and so does
  every state a callee runs in), a call of donate or verifyMilestone made while the guard
  is taken, that is while
  one of the two is still running, is rejected and changes nothing; whatever calls to
  them the callees of a running donate or verifyMilestone make, the outcome is the one
  without these calls; and a transaction that finds the guard free leaves it free,
  whether it returns or reverts.
\<close>

theorem reentrancy_guard:
  assumes "wf w" and "guarded c"
  shows "(entered w \<longrightarrow> isl (exec E d c w) \<and> snd (transact E d c w) = w)
       \<and> exec E d c w = exec (without_reentry E) d c w
       \<and> (\<not> entered w \<longrightarrow> \<not> entered (snd (transact E d c w)))"
  using assms guarded_rejected [of w c E d] exec_without_reentry [of w c E d]
    transact_entered [of w E d c]
  by (auto simp: transact_def isl_def)

theorem reentrancy_guard_witness:
  "exec reentering (Suc (Suc 0)) (Call 2 (VerifyMilestone 0 0)) (funded\<lparr>escrowOwner := Account 2\<rparr>)
     = exec (without_reentry reentering) (Suc (Suc 0)) (Call 2 (VerifyMilestone 0 0))
         (funded\<lparr>escrowOwner := Account 2\<rparr>)
   \<and> \<not> entered (snd (transact reentering (Suc (Suc 0)) (Call 2 (VerifyMilestone 0 0))
         (funded\<lparr>escrowOwner := Account 2\<rparr>)))
   \<and> isl (exec reentering (Suc 0) (Call 2 (VerifyMilestone 0 1))
         (funded\<lparr>escrowOwner := Account 2, entered := True\<rparr>))
   \<and> map state (milestones (projects (snd (transact reentering (Suc (Suc 0))
         (Call 2 (VerifyMilestone 0 0)) (funded\<lparr>escrowOwner := Account 2\<rparr>))) 0)) = [Paid, Pending]"
proof -
  have e: "map state (milestones (projects (snd (transact reentering (Suc (Suc 0))
         (Call 2 (VerifyMilestone 0 0)) (funded\<lparr>escrowOwner := Account 2\<rparr>))) 0)) = [Paid, Pending]"
    by (simp add: transact_def verifyMilestone_unfold funded_def reentering_def outside_def
        callee_def run_hook_def attempt_def onlyOwner_def nonReentrant_def donate_def Let_def)
  have a: "wf (funded\<lparr>escrowOwner := Account 2\<rparr>)"
    and b: "wf (funded\<lparr>escrowOwner := Account 2, entered := True\<rparr>)"
    using wf_funded by simp_all
  have c: "\<not> entered (funded\<lparr>escrowOwner := Account 2\<rparr>)"
    and d: "entered (funded\<lparr>escrowOwner := Account 2, entered := True\<rparr>)"
    by (simp_all add: funded_def)
  have g: "guarded (Call 2 (VerifyMilestone 0 0))" "guarded (Call 2 (VerifyMilestone 0 1))"
    by simp_all
  show ?thesis
    using reentrancy_guard [OF a g(1), of reentering "Suc (Suc 0)"]
      reentrancy_guard [OF b g(2), of reentering "Suc 0"] c d e
    by blast
qed

text \<open>
  C10. verifyMilestone does not ask whether the project was funded. In a state that
  satisfies the invariant, with the guard free, for a project with no donor and nothing
  raised, an owner's call on a Pending milestone that is not the last
  returns whenever the escrow as a whole holds the milestone's amount (and the creator
  takes the payment): the milestone is Paid, the release is logged, and the amount has
  left the escrow for the creator, out of what was deposited for other projects.
\<close>

theorem verifyMilestone_no_funding_check:
  fixes w :: world and pid idx :: nat and E :: env
  defines "p \<equiv> projects w pid"
  defines "a \<equiv> amount (milestones (projects w pid) ! idx)"
  assumes "wf w" and "Account n = escrowOwner w" and "\<not> entered w"
    and "creator p \<noteq> address0" and "donor p = address0" and "fundsRaised p = 0"
    and "idx < length (milestones p)" and "idx \<noteq> length (milestones p) - 1"
    and "state (milestones p ! idx) = Pending"
    and "a \<le> escrowBalance w"
    and "\<not> refuses (onReceive E) (creator p)"
  shows "\<exists>w'. exec E (Suc d) (Call n (VerifyMilestone pid idx)) w = Inr w'
       \<and> state (milestones (projects w' pid) ! idx) = Paid
       \<and> FundsReleased pid idx a \<in> set (events w')
       \<and> escrowBalance w' = escrowBalance w - a
       \<and> received w' (creator p) = received w (creator p) + a
       \<and> donor (projects w' pid) = address0 \<and> fundsRaised (projects w' pid) = 0"
proof -
  have nl: "Suc idx \<noteq> length (milestones p)" using assms(9,10) by auto
  have "\<exists>w'. exec E (Suc d) (Call n (VerifyMilestone pid idx)) w = Inr w'"
    using assms(3-6,9,11-13) nl unfolding p_def a_def
    by (intro verifyMilestone_returns) simp_all
  then obtain w' where r: "verifyMilestone (outside E (exec E d)) (Account n) pid idx w = Inr w'"
    by auto
  note V = verifyMilestone_Inr [OF assms(3) civil_exec r, folded p_def a_def]
  have "state (milestones (projects w' pid) ! idx) = Paid"
    using V(4) by (simp add: V(11))
  moreover have "donor (projects w' pid) = address0 \<and> fundsRaised (projects w' pid) = 0"
    using assms(7,8) by (simp add: V(11))
  moreover have "FundsReleased pid idx a \<in> set (events w')" using V(20) by simp
  moreover have "received w' (creator p) = received w (creator p) + a" by (simp add: V(14))
  ultimately show ?thesis using r V(13) by auto
qed

theorem verifyMilestone_no_funding_check_witness:
  "\<exists>w'. exec plain (Suc 0) (Call 0 (VerifyMilestone 1 0)) second = Inr w'
     \<and> state (milestones (projects w' 1) ! 0) = Paid
     \<and> fundsRaised (projects second 1) = 0 \<and> fundsRaised (projects second 0) = 5
     \<and> escrowBalance second = 5 \<and> escrowBalance w' = 2 \<and> received w' (Account 4) = 3"
proof -
  have "\<exists>w'. exec plain (Suc 0) (Call 0 (VerifyMilestone 1 0)) second = Inr w'
       \<and> state (milestones (projects w' 1) ! 0) = Paid
       \<and> FundsReleased 1 0 (amount (milestones (projects second 1) ! 0)) \<in> set (events w')
       \<and> escrowBalance w' = escrowBalance second - amount (milestones (projects second 1) ! 0)
       \<and> received w' (creator (projects second 1))
           = received second (creator (projects second 1)) + amount (milestones (projects second 1) ! 0)
       \<and> donor (projects w' 1) = address0 \<and> fundsRaised (projects w' 1) = 0"
    using wf_second
    by (intro verifyMilestone_no_funding_check)
       (simp_all add: second_def funded_def plain_def refuses_def)
  then show ?thesis by (auto simp: second_def funded_def)
qed

end
